theory Spec2Isabelle
  imports Complex_Main "HOL-Library.Multiset"
begin

section \<open>Values and the Python operations the services use\<close>

text \<open>
  The services exchange untyped JSON: cached entries come back through \<open>json.loads\<close>,
  the structuring backend's reply is decoded with \<open>json.loads\<close>, and the handlers build
  and return dicts. A dict is an association list in insertion order; a Python string is
  a \<open>string\<close>, one \<open>char\<close> per character.
\<close>

datatype json =
    JNull
  | JBool bool
  | JInt int
  | JFloat rat
  | JStr string
  | JList "json list"
  | JDict "(string \<times> json) list"

datatype exn =
    TypeError
  | AttributeError
  | KeyError
  | ValueError
  | ExternalError

text \<open>Truthiness, as \<open>if x:\<close> and \<open>x and y\<close> test it.\<close>

fun truthy :: "json \<Rightarrow> bool" where
  "truthy JNull = False"
| "truthy (JBool b) = b"
| "truthy (JInt n) = (n \<noteq> 0)"
| "truthy (JFloat q) = (q \<noteq> 0)"
| "truthy (JStr s) = (s \<noteq> [])"
| "truthy (JList xs) = (xs \<noteq> [])"
| "truthy (JDict kvs) = (kvs \<noteq> [])"

fun starts_with :: "'a list \<Rightarrow> 'a list \<Rightarrow> bool" where
  "starts_with s [] = True"
| "starts_with [] (p # ps) = False"
| "starts_with (c # cs) (p # ps) = (c = p \<and> starts_with cs ps)"

fun contains :: "'a list \<Rightarrow> 'a list \<Rightarrow> bool" where
  "contains [] sub = (sub = [])"
| "contains (c # cs) sub = (starts_with (c # cs) sub \<or> contains cs sub)"

text \<open>\<open>key in x\<close> for a string key: dict membership, list membership, substring test.\<close>

fun py_in :: "string \<Rightarrow> json \<Rightarrow> exn + bool" where
  "py_in k (JDict kvs) = Inr (k \<in> set (map fst kvs))"
| "py_in k (JList xs) = Inr (JStr k \<in> set xs)"
| "py_in k (JStr s) = Inr (contains s k)"
| "py_in k _ = Inl TypeError"

text \<open>\<open>x[key]\<close> for a string key.\<close>

fun py_getitem :: "json \<Rightarrow> string \<Rightarrow> exn + json" where
  "py_getitem (JDict kvs) k = (case map_of kvs k of None \<Rightarrow> Inl KeyError | Some v \<Rightarrow> Inr v)"
| "py_getitem _ k = Inl TypeError"

text \<open>\<open>x.get(key, default)\<close>, \<open>x.values()\<close> and \<open>x.items()\<close>: only a dict has them.\<close>

fun py_get :: "json \<Rightarrow> string \<Rightarrow> json \<Rightarrow> exn + json" where
  "py_get (JDict kvs) k d = (case map_of kvs k of None \<Rightarrow> Inr d | Some v \<Rightarrow> Inr v)"
| "py_get _ k d = Inl AttributeError"

fun py_values :: "json \<Rightarrow> exn + json list" where
  "py_values (JDict kvs) = Inr (map snd kvs)"
| "py_values _ = Inl AttributeError"

fun py_items :: "json \<Rightarrow> exn + (string \<times> json) list" where
  "py_items (JDict kvs) = Inr kvs"
| "py_items _ = Inl AttributeError"

text \<open>\<open>d[key] = v\<close> on a dict: an existing key keeps its position.\<close>

fun dict_set :: "string \<Rightarrow> 'v \<Rightarrow> (string \<times> 'v) list \<Rightarrow> (string \<times> 'v) list" where
  "dict_set k v [] = [(k, v)]"
| "dict_set k v (p # ps) = (if fst p = k then (k, v) # ps else p # dict_set k v ps)"

text \<open>\<open>sep.join(parts)\<close>.\<close>

fun py_join :: "string \<Rightarrow> string list \<Rightarrow> string" where
  "py_join sep [] = []"
| "py_join sep [x] = x"
| "py_join sep (x # y # ys) = x @ sep @ py_join sep (y # ys)"

definition newline :: char where
  "newline = CHR 0x0A"

text \<open>\<open>text.split("\n\n")\<close>: the pieces between non-overlapping blank-line separators,
  scanned from the left; there is always at least one piece.\<close>

fun split_paragraphs :: "string \<Rightarrow> string list" where
  "split_paragraphs (a # b # cs) =
     (if a = newline \<and> b = newline then [] # split_paragraphs cs
      else (case split_paragraphs (b # cs) of
              [] \<Rightarrow> [[a]]
            | p # ps \<Rightarrow> (a # p) # ps))"
| "split_paragraphs cs = [cs]"

text \<open>\<open>s.strip()\<close>: whitespace is what \<open>str.isspace\<close> accepts among the first 256
  code points.\<close>

definition is_space :: "char \<Rightarrow> bool" where
  "is_space c = (of_char c \<in> {9, 10, 11, 12, 13, 28, 29, 30, 31, 32, 133, 160 :: nat})"

definition py_strip :: "string \<Rightarrow> string" where
  "py_strip s = rev (dropWhile is_space (rev (dropWhile is_space s)))"

section \<open>OCR fan-out (services/ocr.py)\<close>

text \<open>
  The Vision client is a collaborator: for an image URL, \<open>text_detection\<close> either raises
  or returns the descriptions of its text annotations. Everything \<open>_ocr_image_from_url\<close>
  does sits in one \<open>try\<close>, so any failure becomes the empty text at the task's index.
\<close>

type_synonym vision_client = "string \<Rightarrow> exn + string list"

definition ocr_image_from_url :: "vision_client \<Rightarrow> string \<Rightarrow> nat \<Rightarrow> nat \<times> string" where
  "ocr_image_from_url client url index =
     (case client url of
        Inl e \<Rightarrow> (index, [])
      | Inr texts \<Rightarrow> (case texts of [] \<Rightarrow> (index, []) | t # _ \<Rightarrow> (index, t)))"

record ocr_item =
  raw_text :: string
  image_index :: nat

record ocr_result =
  source :: string
  items :: "ocr_item list"
  combined_text :: string

definition ocr_separator :: string where
  "ocr_separator = [newline, newline] @ ''---'' @ [newline, newline]"

text \<open>The tasks of \<open>process_images\<close>, one per URL, in the order \<open>asyncio.gather\<close>
  returns their results: the order of the tasks.\<close>

definition ocr_gather :: "vision_client \<Rightarrow> string list \<Rightarrow> (nat \<times> string) list" where
  "ocr_gather client image_urls =
     map (\<lambda>(i, url). ocr_image_from_url client url i) (enumerate 0 image_urls)"

text \<open>The loop over \<open>sorted(ocr_results, key=lambda x: x[0])\<close>: a result with a
  non-empty text is appended to \<open>items\<close> and to \<open>all_text\<close>, any other is skipped.\<close>

fun collect_texts ::
  "(nat \<times> string) list \<Rightarrow> ocr_item list \<Rightarrow> string list \<Rightarrow> ocr_item list \<times> string list" where
  "collect_texts [] items_acc all_text = (items_acc, all_text)"
| "collect_texts ((i, text) # rest) items_acc all_text =
     (if text \<noteq> []
      then collect_texts rest (items_acc @ [\<lparr>raw_text = text, image_index = i\<rparr>]) (all_text @ [text])
      else collect_texts rest items_acc all_text)"

definition combine_results :: "(nat \<times> string) list \<Rightarrow> ocr_result" where
  "combine_results ocr_results =
     (let (its, all_text) = collect_texts (sort_key fst ocr_results) [] []
      in \<lparr>source = ''google_vision'', items = its, combined_text = py_join ocr_separator all_text\<rparr>)"

definition process_images :: "vision_client \<Rightarrow> string list \<Rightarrow> ocr_result" where
  "process_images client image_urls =
     (if image_urls = []
      then \<lparr>source = ''google_vision'', items = [], combined_text = []\<rparr>
      else combine_results (ocr_gather client image_urls))"

text \<open>The text a task leaves in its slot for a URL, whatever its index.\<close>

definition ocr_text :: "vision_client \<Rightarrow> string \<Rightarrow> string" where
  "ocr_text client url = snd (ocr_image_from_url client url 0)"

subsection \<open>Example collaborators for the OCR stage\<close>

text \<open>A Vision client that reads one image and fails on every other URL.\<close>

definition flaky_client :: vision_client where
  "flaky_client url = (if url = ''u0'' then Inr [''Dal Makhani 220''] else Inl ExternalError)"

text \<open>A Vision client that returns the texts A, B and C for the URLs u0, u1 and u2.\<close>

definition abc_client :: vision_client where
  "abc_client url =
     (if url = ''u0'' then Inr [''A''] else if url = ''u1'' then Inr [''B''] else Inr [''C''])"

section \<open>Chunking and normalisation (services/normalizer.py)\<close>

text \<open>Sequencing of steps that may raise: the first exception ends the computation.\<close>

definition bind_exn :: "exn + 'a \<Rightarrow> ('a \<Rightarrow> exn + 'b) \<Rightarrow> exn + 'b" where
  "bind_exn m f = (case m of Inl e \<Rightarrow> Inl e | Inr v \<Rightarrow> f v)"

subsection \<open>\<open>_split_text\<close>\<close>

definition paragraph_break :: string where
  "paragraph_break = [newline, newline]"

text \<open>The loop of \<open>_split_text\<close> over the paragraphs, with its two variables
  \<open>current\<close> and \<open>chunks\<close>.\<close>

fun split_loop :: "nat \<Rightarrow> string list \<Rightarrow> string \<Rightarrow> string list \<Rightarrow> string \<times> string list" where
  "split_loop chunk_size [] current chunks = (current, chunks)"
| "split_loop chunk_size (para # paras) current chunks =
     (if length current + length para < chunk_size
      then split_loop chunk_size paras (current @ para @ paragraph_break) chunks
      else split_loop chunk_size paras (para @ paragraph_break)
             (if current \<noteq> [] then chunks @ [py_strip current] else chunks))"

definition split_text :: "string \<Rightarrow> nat \<Rightarrow> string list" where
  "split_text text chunk_size =
     (let (current, chunks) = split_loop chunk_size (split_paragraphs text) [] [];
          chunks' = (if current \<noteq> [] then chunks @ [py_strip current] else chunks)
      in if chunks' \<noteq> [] then chunks' else [take chunk_size text])"

text \<open>
  The chunking as the specification words it: paragraphs are taken in order, and a chunk
  keeps accumulating the next paragraph while the text gathered so far (every paragraph
  followed by the separator) together with that paragraph stays below the budget;
  otherwise the paragraph starts a new chunk. \<open>greedy_from\<close> carries the group being
  filled and the length gathered in it.
\<close>

fun greedy_from :: "nat \<Rightarrow> string list \<Rightarrow> nat \<Rightarrow> string list \<Rightarrow> string list list" where
  "greedy_from budget grp used [] = [grp]"
| "greedy_from budget grp used (p # ps) =
     (if used + length p < budget
      then greedy_from budget (grp @ [p]) (used + length p + 2) ps
      else grp # greedy_from budget [p] (length p + 2) ps)"

definition greedy_groups :: "nat \<Rightarrow> string list \<Rightarrow> string list list" where
  "greedy_groups budget paras =
     (case paras of [] \<Rightarrow> [] | p # ps \<Rightarrow> greedy_from budget [p] (length p + 2) ps)"

text \<open>The text \<open>current\<close> holds for a group of paragraphs, and the chunk the group is
  sent as.\<close>

definition cat_group :: "string list \<Rightarrow> string" where
  "cat_group grp = concat (map (\<lambda>p. p @ paragraph_break) grp)"

definition render_group :: "string list \<Rightarrow> string" where
  "render_group grp = py_strip (cat_group grp)"

subsection \<open>\<open>_count_items\<close> and \<open>_merge_menus\<close>\<close>

text \<open>The inner loop of \<open>_count_items\<close>: the lengths of the values that are lists.\<close>

fun count_lists :: "json list \<Rightarrow> nat" where
  "count_lists [] = 0"
| "count_lists (v # vs) = (case v of JList xs \<Rightarrow> length xs | _ \<Rightarrow> 0) + count_lists vs"

definition count_group :: "json \<Rightarrow> string \<Rightarrow> exn + nat" where
  "count_group menu veg_type =
     bind_exn (py_in veg_type menu) (\<lambda>present.
       if present
       then bind_exn (py_getitem menu veg_type) (\<lambda>grp.
              bind_exn (py_values grp) (\<lambda>vs. Inr (count_lists vs)))
       else Inr 0)"

definition count_items :: "json \<Rightarrow> exn + nat" where
  "count_items menu =
     bind_exn (count_group menu ''vegetarian'') (\<lambda>a.
       bind_exn (count_group menu ''non_vegetarian'') (\<lambda>b. Inr (a + b)))"

text \<open>
  The running menu of \<open>normalize\<close> is the dict literal \<open>combined_menu\<close>: veg group to
  category to list of items. \<open>_merge_menus\<close> only ever extends those lists in place.
\<close>

type_synonym slots = "(string \<times> json list) list"
type_synonym menu = "(string \<times> slots) list"

definition combined_menu :: menu where
  "combined_menu =
     [(''vegetarian'',
         [(''starters'', []), (''main_course'', []), (''rice_and_biryani'', []),
          (''breads'', []), (''desserts'', []), (''beverages'', [])]),
      (''non_vegetarian'',
         [(''starters'', []), (''main_course'', []), (''seafood'', []),
          (''rice_and_biryani'', []), (''desserts'', []), (''beverages'', [])])]"

definition slots_json :: "slots \<Rightarrow> json" where
  "slots_json s = JDict (map (\<lambda>(c, xs). (c, JList xs)) s)"

definition menu_json :: "menu \<Rightarrow> json" where
  "menu_json m = JDict (map (\<lambda>(g, s). (g, slots_json s)) m)"

text \<open>\<open>target[veg_type][category].extend(items)\<close> on the group dict.\<close>

fun extend_slot :: "string \<Rightarrow> json list \<Rightarrow> slots \<Rightarrow> slots" where
  "extend_slot category xs [] = []"
| "extend_slot category xs ((k, v) # rest) =
     (if k = category then (k, v @ xs) # rest else (k, v) # extend_slot category xs rest)"

text \<open>The inner loop of \<open>_merge_menus\<close> over \<open>source[veg_type].items()\<close>. The target's
  group is looked up only for an entry whose value is a list; a missing group is a
  KeyError.\<close>

fun merge_group_items :: "menu \<Rightarrow> string \<Rightarrow> (string \<times> json) list \<Rightarrow> exn + menu" where
  "merge_group_items target veg_type [] = Inr target"
| "merge_group_items target veg_type ((category, its) # rest) =
     (case its of
        JList xs \<Rightarrow>
          (case map_of target veg_type of
             None \<Rightarrow> Inl KeyError
           | Some grp \<Rightarrow>
               if category \<in> set (map fst grp)
               then merge_group_items (dict_set veg_type (extend_slot category xs grp) target)
                      veg_type rest
               else merge_group_items target veg_type rest)
      | _ \<Rightarrow> merge_group_items target veg_type rest)"

definition merge_veg_type :: "menu \<Rightarrow> json \<Rightarrow> string \<Rightarrow> exn + menu" where
  "merge_veg_type target src veg_type =
     bind_exn (py_in veg_type src) (\<lambda>present.
       if present
       then bind_exn (py_getitem src veg_type) (\<lambda>grp.
              bind_exn (py_items grp) (\<lambda>kvs. merge_group_items target veg_type kvs))
       else Inr target)"

definition merge_menus :: "menu \<Rightarrow> json \<Rightarrow> exn + menu" where
  "merge_menus target src =
     bind_exn (merge_veg_type target src ''vegetarian'') (\<lambda>t.
       merge_veg_type t src ''non_vegetarian'')"

subsection \<open>\<open>_parse_chunk\<close> and \<open>normalize\<close>\<close>

text \<open>
  The structuring backend is a collaborator. For the restaurant name and chunk text that
  make up the prompt, and the index of the call, it stands for the outcome of
  \<open>generate_content_async\<close>, the stripping of the code fence and \<open>json.loads\<close>: the decoded
  value, or the exception any of the three raised.
\<close>

type_synonym backend = "json \<Rightarrow> string \<Rightarrow> nat \<Rightarrow> exn + json"

datatype chunk_result = ChunkMenu json | ChunkError

definition parse_chunk :: "backend \<Rightarrow> string \<Rightarrow> json \<Rightarrow> nat \<Rightarrow> chunk_result" where
  "parse_chunk model text restaurant_name chunk_idx =
     (case model restaurant_name text chunk_idx of
        Inl e \<Rightarrow> ChunkError
      | Inr parsed \<Rightarrow>
          (case count_items parsed of
             Inl e \<Rightarrow> ChunkError
           | Inr n \<Rightarrow> ChunkMenu parsed))"

text \<open>The loop over the gathered results: a result with a menu is merged, any other is
  skipped.\<close>

fun merge_results :: "menu \<Rightarrow> chunk_result list \<Rightarrow> exn + menu" where
  "merge_results target [] = Inr target"
| "merge_results target (r # rs) =
     (case r of
        ChunkMenu src \<Rightarrow> bind_exn (merge_menus target src) (\<lambda>t. merge_results t rs)
      | ChunkError \<Rightarrow> merge_results target rs)"

datatype normalize_result =
    NormError string
  | NormMenu menu nat nat

definition min_text_length :: nat where
  "min_text_length = 50"

definition chunk_budget :: nat where
  "chunk_budget = 2000"

definition chunk_results :: "backend \<Rightarrow> json \<Rightarrow> string list \<Rightarrow> chunk_result list" where
  "chunk_results model restaurant_name chunks =
     map (\<lambda>(i, chunk). parse_chunk model chunk restaurant_name i) (enumerate 0 chunks)"

text \<open>
  \<open>normalize\<close> returns its result (or the exception that escapes it) and the backend
  calls it made, each with the restaurant name and the chunk text of its prompt. The
  model is absent when no API key is configured; \<open>raw\<close> is the parameter \<open>raw_text\<close>.
\<close>

definition normalize ::
  "backend option \<Rightarrow> string \<Rightarrow> json \<Rightarrow> (exn + normalize_result) \<times> (json \<times> string) list" where
  "normalize model raw restaurant_name =
     (case model of
        None \<Rightarrow> (Inr (NormError ''Gemini not configured''), [])
      | Some m \<Rightarrow>
          if raw = [] \<or> length raw < min_text_length
          then (Inr (NormError ''Insufficient text''), [])
          else
            (let chunks = split_text raw chunk_budget;
                 results = chunk_results m restaurant_name chunks
             in (bind_exn (merge_results combined_menu results) (\<lambda>merged.
                   bind_exn (count_items (menu_json merged)) (\<lambda>items_count.
                     Inr (NormMenu merged items_count (length chunks)))),
                 map (\<lambda>chunk. (restaurant_name, chunk)) chunks)))"

subsection \<open>Example collaborators for the normalisation stage\<close>

text \<open>A backend whose reply lists one starter under the vegetarian group, one item under
  the category \<open>soups\<close> and one under the group \<open>vegan\<close>, both outside the vocabulary.\<close>

definition soup_reply :: json where
  "soup_reply =
     JDict [(''vegetarian'',
               JDict [(''starters'', JList [JDict [(''name'', JStr ''Paneer Tikka'')]]),
                      (''soups'', JList [JDict [(''name'', JStr ''Tomato Soup'')]])]),
            (''vegan'',
               JDict [(''starters'', JList [JDict [(''name'', JStr ''Green Salad'')]])])]"

definition soup_backend :: backend where
  "soup_backend restaurant_name text chunk_idx = Inr soup_reply"

text \<open>A second reply: one vegetarian starter and one seafood dish.\<close>

definition curry_reply :: json where
  "curry_reply =
     JDict [(''vegetarian'', JDict [(''starters'', JList [JDict [(''name'', JStr ''Samosa'')]])]),
            (''non_vegetarian'', JDict [(''seafood'', JList [JDict [(''name'', JStr ''Fish Curry'')]])])]"

definition curry_backend :: backend where
  "curry_backend restaurant_name text chunk_idx = Inr curry_reply"

text \<open>The running menu after merging the first reply and then the second, and after
  merging them the other way round.\<close>

definition paneer :: json where
  "paneer = JDict [(''name'', JStr ''Paneer Tikka'')]"

definition samosa :: json where
  "samosa = JDict [(''name'', JStr ''Samosa'')]"

definition fish_curry :: json where
  "fish_curry = JDict [(''name'', JStr ''Fish Curry'')]"

definition menu_with :: "json list \<Rightarrow> json list \<Rightarrow> menu" where
  "menu_with veg_starters seafood =
     [(''vegetarian'',
         [(''starters'', veg_starters), (''main_course'', []), (''rice_and_biryani'', []),
          (''breads'', []), (''desserts'', []), (''beverages'', [])]),
      (''non_vegetarian'',
         [(''starters'', []), (''main_course'', []), (''seafood'', seafood),
          (''rice_and_biryani'', []), (''desserts'', []), (''beverages'', [])])]"

subsection \<open>Example corpus\<close>

definition three_paragraphs :: string where
  "three_paragraphs = ''ab'' @ paragraph_break @ ''cd'' @ paragraph_break @ ''efgh''"

subsection \<open>Reading a menu: keys, slots and what a chunk lists\<close>

definition vocabulary :: "(string \<times> string list) list" where
  "vocabulary =
     [(''vegetarian'',
         [''starters'', ''main_course'', ''rice_and_biryani'', ''breads'', ''desserts'',
          ''beverages'']),
      (''non_vegetarian'',
         [''starters'', ''main_course'', ''seafood'', ''rice_and_biryani'', ''desserts'',
          ''beverages''])]"

text \<open>The group keys of a menu, each with its category keys, in order.\<close>

definition menu_keys :: "menu \<Rightarrow> (string \<times> string list) list" where
  "menu_keys m = map (\<lambda>(g, s). (g, map fst s)) m"

text \<open>\<open>menu[g][c]\<close>, when both keys are there.\<close>

definition slot :: "menu \<Rightarrow> string \<Rightarrow> string \<Rightarrow> json list option" where
  "slot m g c = (case map_of m g of None \<Rightarrow> None | Some grp \<Rightarrow> map_of grp c)"

text \<open>The items a chunk's decoded reply lists under veg group \<open>g\<close> and category \<open>c\<close>:
  the list found at \<open>src[g][c]\<close>, nothing when there is no list there.\<close>

definition listed_items :: "(string \<times> json) list \<Rightarrow> string \<Rightarrow> json list" where
  "listed_items kvs c =
     concat (map (\<lambda>(k, v). case v of JList xs \<Rightarrow> if k = c then xs else [] | _ \<Rightarrow> []) kvs)"

definition chunk_items :: "json \<Rightarrow> string \<Rightarrow> string \<Rightarrow> json list" where
  "chunk_items src g c =
     (if g = ''vegetarian'' \<or> g = ''non_vegetarian''
      then (case src of
              JDict groups \<Rightarrow> (case map_of groups g of Some (JDict kvs) \<Rightarrow> listed_items kvs c | _ \<Rightarrow> [])
            | _ \<Rightarrow> [])
      else [])"

fun result_items :: "chunk_result \<Rightarrow> string \<Rightarrow> string \<Rightarrow> json list" where
  "result_items (ChunkMenu src) g c = chunk_items src g c"
| "result_items ChunkError g c = []"

text \<open>A running menu: a dict that has the two veg groups, each a dict (its keys are
  distinct) of lists.\<close>

definition is_menu :: "menu \<Rightarrow> bool" where
  "is_menu m =
     (list_all (\<lambda>g. case map_of m g of None \<Rightarrow> False | Some grp \<Rightarrow> distinct (map fst grp))
        [''vegetarian'', ''non_vegetarian''])"

text \<open>\<open>m'\<close> is \<open>m\<close> with \<open>f g c\<close> appended to the slot of every group \<open>g\<close> and category
  \<open>c\<close>: the same keys, and no other change.\<close>

definition extends_by :: "menu \<Rightarrow> menu \<Rightarrow> (string \<Rightarrow> string \<Rightarrow> json list) \<Rightarrow> bool" where
  "extends_by m m' f =
     (menu_keys m' = menu_keys m
      \<and> (\<forall>g c. slot m' g c = map_option (\<lambda>v. v @ f g c) (slot m g c)))"

text \<open>What \<open>_parse_chunk\<close> can return: an error, or a menu that \<open>_count_items\<close> accepted.\<close>

definition accepted :: "chunk_result \<Rightarrow> bool" where
  "accepted r = (case r of ChunkError \<Rightarrow> True | ChunkMenu src \<Rightarrow> \<not> isl (count_items src))"

text \<open>The number of items in the slots of the two veg groups.\<close>

definition slot_count :: "menu \<Rightarrow> nat" where
  "slot_count m =
     sum_list (map (\<lambda>g. case map_of m g of
                           None \<Rightarrow> 0
                         | Some grp \<Rightarrow> sum_list (map (\<lambda>c. length (the (map_of grp c))) (map fst grp)))
                 [''vegetarian'', ''non_vegetarian''])"

section \<open>Durable store lookup (services/mongo_service.py)\<close>

text \<open>
  A stored document, with the fields \<open>save_menu\<close> writes (the timestamps and the id
  play no part in a lookup).
\<close>

record stored_doc =
  doc_restaurant_name :: string
  doc_location :: string
  doc_restaurant_info :: json
  doc_menu :: json
  doc_meta :: json

text \<open>
  \<open>get_menu\<close> hands the query strings to the store as \<open>$regex\<close> patterns with option
  \<open>i\<close>. The regular-expression engine is the store's: compiling a pattern either fails
  or gives a matcher that searches a subject for the pattern, ignoring case.
\<close>

type_synonym regex_engine = "string \<Rightarrow> exn + (string \<Rightarrow> bool)"

text \<open>\<open>find_one\<close> with the query \<open>get_menu\<close> builds: both patterns are compiled, then the
  first document in natural order that matches is returned.\<close>

definition find_one ::
  "regex_engine \<Rightarrow> stored_doc list \<Rightarrow> string \<Rightarrow> string option \<Rightarrow> exn + stored_doc option" where
  "find_one engine docs name_pattern location_pattern =
     bind_exn (engine name_pattern) (\<lambda>name_matches.
       case location_pattern of
         None \<Rightarrow> Inr (find (\<lambda>d. name_matches (doc_restaurant_name d)) docs)
       | Some lp \<Rightarrow>
           bind_exn (engine lp) (\<lambda>location_matches.
             Inr (find (\<lambda>d. name_matches (doc_restaurant_name d)
                            \<and> location_matches (doc_location d)) docs)))"

text \<open>\<open>MongoService.get_menu\<close>. The collection is given as its documents, or as the
  exception the driver raises when the store cannot be reached. A name or a location that
  is \<open>None\<close> or empty is falsy.\<close>

definition get_menu ::
  "regex_engine \<Rightarrow> exn + stored_doc list \<Rightarrow> string option \<Rightarrow> string option
     \<Rightarrow> exn + stored_doc option" where
  "get_menu engine collection restaurant_name location =
     (case restaurant_name of
        None \<Rightarrow> Inr None
      | Some name \<Rightarrow>
          if name = [] then Inr None
          else bind_exn collection (\<lambda>docs.
                 find_one engine docs name
                   (case location of
                      None \<Rightarrow> None
                    | Some l \<Rightarrow> if l = [] then None else Some l)))"

subsection \<open>Case-insensitive substring match, and a fragment of the pattern language\<close>

definition to_lower :: "char \<Rightarrow> char" where
  "to_lower c =
     (if 65 \<le> (of_char c :: nat) \<and> (of_char c :: nat) \<le> 90
      then char_of (of_char c + (32 :: nat)) else c)"

text \<open>\<open>q\<close> is a case-insensitive substring of \<open>s\<close>.\<close>

definition ci_contains :: "string \<Rightarrow> string \<Rightarrow> bool" where
  "ci_contains s q = contains (map to_lower s) (map to_lower q)"

text \<open>The characters the pattern language gives a meaning of their own.\<close>

definition is_meta :: "char \<Rightarrow> bool" where
  "is_meta c = (c \<in> set ''.^$*+?()[]{}|'' \<or> c = CHR 0x5C)"

definition is_quantifier :: "char \<Rightarrow> bool" where
  "is_quantifier c = (c = CHR ''*'' \<or> c = CHR ''+'' \<or> c = CHR ''?'')"

text \<open>
  What an engine does on a pattern without metacharacters: it compiles, and the matcher
  is the case-insensitive substring test.
\<close>

definition literal_engine :: "regex_engine \<Rightarrow> bool" where
  "literal_engine engine =
     (\<forall>p. (\<forall>c \<in> set p. \<not> is_meta c) \<longrightarrow> (\<exists>m. engine p = Inr m \<and> (\<forall>s. m s = ci_contains s p)))"

text \<open>
  A fragment of the Perl-compatible pattern language the store uses: literal
  characters, the dot (any character but a newline) and the postfix quantifiers
  \<open>*\<close>, \<open>+\<close> and \<open>?\<close> on a single character or dot. A quantifier with nothing to repeat
  does not compile. Every other construct (anchors, groups, classes, braces,
  alternation, escapes, lazy and possessive quantifiers) is outside the fragment.
\<close>

datatype atom = Lit char | AnyChar

datatype quantifier = One | Star | Plus | Opt

datatype regex_error = NothingToRepeat | OutsideFragment

definition quantifier_of :: "char \<Rightarrow> quantifier" where
  "quantifier_of c = (if c = CHR ''*'' then Star else if c = CHR ''+'' then Plus else Opt)"

fun parse_pattern :: "string \<Rightarrow> regex_error + (atom \<times> quantifier) list" where
  "parse_pattern [] = Inr []"
| "parse_pattern [c] =
     (if is_quantifier c then Inl NothingToRepeat
      else if c = CHR ''.'' then Inr [(AnyChar, One)]
      else if is_meta c then Inl OutsideFragment
      else Inr [(Lit c, One)])"
| "parse_pattern (c # q # rest) =
     (if is_quantifier c then Inl NothingToRepeat
      else if c \<noteq> CHR ''.'' \<and> is_meta c then Inl OutsideFragment
      else if is_quantifier q
      then (case rest of
              [] \<Rightarrow> Inr [(if c = CHR ''.'' then AnyChar else Lit c, quantifier_of q)]
            | r # rest' \<Rightarrow>
                if is_quantifier r then Inl OutsideFragment
                else (case parse_pattern (r # rest') of
                        Inl e \<Rightarrow> Inl e
                      | Inr ps \<Rightarrow> Inr ((if c = CHR ''.'' then AnyChar else Lit c, quantifier_of q) # ps)))
      else (case parse_pattern (q # rest) of
              Inl e \<Rightarrow> Inl e
            | Inr ps \<Rightarrow> Inr ((if c = CHR ''.'' then AnyChar else Lit c, One) # ps)))"

fun atom_matches :: "atom \<Rightarrow> char \<Rightarrow> bool" where
  "atom_matches (Lit c) d = (to_lower c = to_lower d)"
| "atom_matches AnyChar d = (d \<noteq> newline)"

text \<open>The pattern matches a prefix of the subject.\<close>

fun match_here :: "(atom \<times> quantifier) list \<Rightarrow> string \<Rightarrow> bool" where
  "match_here [] s = True"
| "match_here ((a, One) # r) [] = False"
| "match_here ((a, One) # r) (c # cs) = (atom_matches a c \<and> match_here r cs)"
| "match_here ((a, Opt) # r) [] = match_here r []"
| "match_here ((a, Opt) # r) (c # cs) =
     (match_here r (c # cs) \<or> (atom_matches a c \<and> match_here r cs))"
| "match_here ((a, Star) # r) [] = match_here r []"
| "match_here ((a, Star) # r) (c # cs) =
     (match_here r (c # cs) \<or> (atom_matches a c \<and> match_here ((a, Star) # r) cs))"
| "match_here ((a, Plus) # r) [] = False"
| "match_here ((a, Plus) # r) (c # cs) = (atom_matches a c \<and> match_here ((a, Star) # r) cs)"

text \<open>The pattern matches somewhere in the subject.\<close>

fun match_anywhere :: "(atom \<times> quantifier) list \<Rightarrow> string \<Rightarrow> bool" where
  "match_anywhere r [] = match_here r []"
| "match_anywhere r (c # cs) = (match_here r (c # cs) \<or> match_anywhere r cs)"

text \<open>The engine restricted to the fragment: a pattern that does not compile, or that
  lies outside the fragment, is an error.\<close>

definition fragment_engine :: regex_engine where
  "fragment_engine p =
     (case parse_pattern p of
        Inl e \<Rightarrow> Inl ExternalError
      | Inr r \<Rightarrow> Inr (match_anywhere r))"

subsection \<open>Example documents\<close>

definition tandoori_doc :: stored_doc where
  "tandoori_doc =
     \<lparr>doc_restaurant_name = ''Tandoori Treat'', doc_location = ''Koramangala'',
      doc_restaurant_info = JDict [(''name'', JStr ''Tandoori Treat'')],
      doc_menu = menu_json (menu_with [paneer] []),
      doc_meta = JDict [(''items_count'', JInt 1)]\<rparr>"

definition plus_doc :: stored_doc where
  "plus_doc =
     \<lparr>doc_restaurant_name = ''A+B Cafe'', doc_location = ''Indiranagar'',
      doc_restaurant_info = JDict [(''name'', JStr ''A+B Cafe'')],
      doc_menu = menu_json (menu_with [samosa] []),
      doc_meta = JDict [(''items_count'', JInt 1)]\<rparr>"

section \<open>Image source (services/serpapi_service.py)\<close>

text \<open>
  The search API is a collaborator. Its answer to a maps search holds a single exact
  match under \<open>place_results\<close>, or a list of matches under \<open>local_results\<close>, or neither;
  a place is a dict. Its answer to a photos request is the list of menu photos, each
  given by its \<open>image\<close> entry if it has one. Either request may raise.
\<close>

type_synonym place = "(string \<times> json) list"

record search_response =
  place_results :: "place option"
  local_results :: "place list option"

text \<open>What the handler does to the world, in the order it does it.\<close>

datatype event =
    CacheGet string
  | CacheSet "string + json \<times> json" json
  | MongoFind string "string option"
  | MongoSave json json
  | SerpSearch string
  | SerpPhotos json
  | OcrCall string
  | BackendCall json string

record env =
  cache_lookup :: "string \<Rightarrow> json option"
  regex :: regex_engine
  mongo_collection :: "exn + stored_doc list"
  serpapi_key :: string
  maps_search :: "string \<Rightarrow> exn + search_response"
  maps_photos :: "json \<Rightarrow> exn + string option list"
  vision :: vision_client
  gemini :: "backend option"

text \<open>\<open>d.get(key, default)\<close> on a dict.\<close>

definition dict_get :: "(string \<times> json) list \<Rightarrow> string \<Rightarrow> json \<Rightarrow> json" where
  "dict_get d k dflt = (case map_of d k of None \<Rightarrow> dflt | Some v \<Rightarrow> v)"

text \<open>An optional string in a condition, in an f-string, and in \<open>x or ""\<close>.\<close>

definition opt_truthy :: "string option \<Rightarrow> bool" where
  "opt_truthy x = (case x of None \<Rightarrow> False | Some s \<Rightarrow> s \<noteq> [])"

definition fmt_opt :: "string option \<Rightarrow> string" where
  "fmt_opt x = (case x of None \<Rightarrow> ''None'' | Some s \<Rightarrow> s)"

definition or_empty :: "string option \<Rightarrow> string" where
  "or_empty x = (case x of None \<Rightarrow> [] | Some s \<Rightarrow> s)"

definition opt_json :: "string option \<Rightarrow> json" where
  "opt_json x = (case x of None \<Rightarrow> JNull | Some s \<Rightarrow> JStr s)"

definition search_restaurant ::
  "env \<Rightarrow> string \<Rightarrow> string \<Rightarrow> (exn + place option) \<times> event list" where
  "search_restaurant e restaurant_name location =
     (let query = py_strip (restaurant_name @ '' '' @ location)
      in (case maps_search e query of
            Inl err \<Rightarrow> Inl err
          | Inr results \<Rightarrow>
              (case place_results results of
                 Some p \<Rightarrow> Inr (Some p)
               | None \<Rightarrow>
                   (case local_results results of
                      None \<Rightarrow> Inr None
                    | Some [] \<Rightarrow> Inr None
                    | Some (p # _) \<Rightarrow> Inr (Some p))),
          [SerpSearch query]))"

text \<open>The result dict of \<open>extract_menu_images\<close>: each of its keys \<open>error\<close>,
  \<open>restaurant\<close> and \<open>image_urls\<close> is present or not.\<close>

record serp_result =
  sr_error :: "string option"
  sr_restaurant :: "json option"
  sr_image_urls :: "string list option"

fun collect_image_urls :: "string option list \<Rightarrow> string list" where
  "collect_image_urls [] = []"
| "collect_image_urls (photo # photos) =
     (let url = or_empty photo
      in if url \<noteq> [] then url # collect_image_urls photos else collect_image_urls photos)"

definition extract_menu_images ::
  "env \<Rightarrow> string option \<Rightarrow> string \<Rightarrow> nat \<Rightarrow> string option
     \<Rightarrow> (exn + serp_result) \<times> event list" where
  "extract_menu_images e restaurant_name location max_images google_maps_url =
     (let search_query =
            (if opt_truthy google_maps_url then or_empty google_maps_url
             else fmt_opt restaurant_name @ '' '' @ location);
          (found, evs) = search_restaurant e search_query []
      in case found of
           Inl err \<Rightarrow> (Inl err, evs)
         | Inr place_opt \<Rightarrow>
             if place_opt = None \<or> place_opt = Some []
             then (Inr \<lparr>sr_error = Some ''Restaurant not found on Google Maps'',
                        sr_restaurant = None, sr_image_urls = None\<rparr>, evs)
             else
               (let pl = the place_opt;
                    final_name =
                      dict_get pl ''title''
                        (JStr (if opt_truthy restaurant_name then or_empty restaurant_name
                               else ''Unknown Restaurant''));
                    restaurant_info =
                      JDict [(''name'', final_name),
                             (''address'', dict_get pl ''address'' (JStr [])),
                             (''rating'', dict_get pl ''rating'' JNull),
                             (''reviews'', dict_get pl ''reviews'' JNull),
                             (''phone'', dict_get pl ''phone'' (JStr [])),
                             (''data_id'', dict_get pl ''data_id'' JNull)];
                    data_id = dict_get pl ''data_id'' JNull
                in if \<not> truthy data_id
                   then (Inr \<lparr>sr_error = Some ''No data_id found'',
                              sr_restaurant = Some restaurant_info, sr_image_urls = Some []\<rparr>, evs)
                   else
                     (case maps_photos e data_id of
                        Inl err \<Rightarrow> (Inl err, evs @ [SerpPhotos data_id])
                      | Inr photos \<Rightarrow>
                          (Inr \<lparr>sr_error = None, sr_restaurant = Some restaurant_info,
                                sr_image_urls =
                                  Some (collect_image_urls
                                          (if max_images = 0 then photos else take max_images photos))\<rparr>,
                           evs @ [SerpPhotos data_id]))))"

section \<open>The extraction endpoint (api/v1/endpoints.py)\<close>

record request =
  req_restaurant_name :: "string option"
  req_location :: "string option"
  req_google_maps_url :: "string option"

text \<open>What the handler answers: a JSON body, a not-found error with its detail, or a
  server error for the exception that escaped.\<close>

datatype outcome =
    Response json
  | HTTP_404 json
  | HTTP_500 exn

definition cache_key_of :: "request \<Rightarrow> string option" where
  "cache_key_of req =
     (if opt_truthy (req_restaurant_name req)
      then Some (fmt_opt (req_restaurant_name req) @ ''_'' @ fmt_opt (req_location req))
      else None)"

text \<open>\<open>x > 0\<close> for a decoded JSON value.\<close>

fun py_gt0 :: "json \<Rightarrow> exn + bool" where
  "py_gt0 (JInt n) = Inr (0 < n)"
| "py_gt0 (JFloat q) = Inr (0 < q)"
| "py_gt0 (JBool b) = Inr b"
| "py_gt0 _ = Inl TypeError"

text \<open>The item count a cached entry records: \<open>cached.get("meta", {}).get("items_count", 0)\<close>.\<close>

definition cached_items_count :: "json \<Rightarrow> exn + json" where
  "cached_items_count cached =
     bind_exn (py_get cached ''meta'' (JDict [])) (\<lambda>meta. py_get meta ''items_count'' (JInt 0))"

text \<open>The test on the fast cache's answer:
  \<open>cached and cached.get("menu") and cached.get("meta", {}).get("items_count", 0) > 0\<close>.\<close>

definition cache_valid :: "json option \<Rightarrow> exn + bool" where
  "cache_valid cached =
     (case cached of
        None \<Rightarrow> Inr False
      | Some c \<Rightarrow>
          if \<not> truthy c then Inr False
          else bind_exn (py_get c ''menu'' JNull) (\<lambda>m.
                 if \<not> truthy m then Inr False
                 else bind_exn (cached_items_count c) py_gt0))"

text \<open>\<open>{**cached, "source": "cache"}\<close>.\<close>

definition with_source :: "json \<Rightarrow> string \<Rightarrow> exn + json" where
  "with_source cached src =
     (case cached of
        JDict kvs \<Rightarrow> Inr (JDict (dict_set ''source'' (JStr src) kvs))
      | _ \<Rightarrow> Inl TypeError)"

datatype resolution = Hit json | Miss | Raised exn

definition check_cache :: "env \<Rightarrow> request \<Rightarrow> resolution \<times> event list" where
  "check_cache e req =
     (case cache_key_of req of
        None \<Rightarrow> (Miss, [])
      | Some key \<Rightarrow>
          (case cache_valid (cache_lookup e key) of
             Inl err \<Rightarrow> Raised err
           | Inr valid \<Rightarrow>
               if valid
               then (case with_source (the (cache_lookup e key)) ''cache'' of
                       Inl err \<Rightarrow> Raised err
                     | Inr r \<Rightarrow> Hit r)
               else Miss,
           [CacheGet key]))"

text \<open>The loops that set \<open>has_items\<close>: some value of a veg group the menu has is a
  non-empty list. The \<open>break\<close> leaves the inner loop only, so both groups are visited.\<close>

definition has_items_group :: "json \<Rightarrow> string \<Rightarrow> exn + bool" where
  "has_items_group menu_value veg_type =
     bind_exn (py_in veg_type menu_value) (\<lambda>present.
       if present
       then bind_exn (py_getitem menu_value veg_type) (\<lambda>grp.
              bind_exn (py_values grp) (\<lambda>vs.
                Inr (list_ex (\<lambda>v. case v of JList xs \<Rightarrow> xs \<noteq> [] | _ \<Rightarrow> False) vs)))
       else Inr False)"

definition has_items :: "json \<Rightarrow> exn + bool" where
  "has_items menu_value =
     (if \<not> truthy menu_value then Inr False
      else bind_exn (has_items_group menu_value ''vegetarian'') (\<lambda>a.
             bind_exn (has_items_group menu_value ''non_vegetarian'') (\<lambda>b. Inr (a \<or> b))))"

definition stored_entry :: "stored_doc \<Rightarrow> (string \<times> json) list" where
  "stored_entry stored =
     [(''restaurant'', doc_restaurant_info stored), (''menu'', doc_menu stored),
      (''meta'', doc_meta stored)]"

text \<open>The lookup in the durable store, inside its \<open>try\<close>: any exception is logged and
  the handler goes on to the fresh extraction. A hit refreshes the fast cache.\<close>

definition check_store :: "env \<Rightarrow> request \<Rightarrow> json option \<times> event list" where
  "check_store e req =
     (if \<not> opt_truthy (req_restaurant_name req) then (None, [])
      else
        (let find_event = MongoFind (or_empty (req_restaurant_name req)) (req_location req)
         in case get_menu (regex e) (mongo_collection e) (req_restaurant_name req) (req_location req) of
              Inl err \<Rightarrow> (None, [find_event])
            | Inr None \<Rightarrow> (None, [find_event])
            | Inr (Some stored) \<Rightarrow>
                (case has_items (doc_menu stored) of
                   Inl err \<Rightarrow> (None, [find_event])
                 | Inr found \<Rightarrow>
                     if found
                     then (Some (JDict (stored_entry stored @ [(''source'', JStr ''mongodb'')])),
                           [find_event,
                            CacheSet (Inl (fmt_opt (req_restaurant_name req) @ ''_'' @ fmt_opt (req_location req)))
                              (JDict (stored_entry stored))])
                     else (None, [find_event]))))"

definition no_text_response :: "json \<Rightarrow> json" where
  "no_text_response restaurant =
     JDict [(''restaurant'', restaurant), (''menu'', JNull),
            (''error'', JStr ''No text extracted from menu images''),
            (''meta'', JDict [(''sources'', JList [JStr ''serpapi'', JStr ''google_vision''])])]"

text \<open>
  The fresh extraction: image source, OCR of at most ten images, normalisation, then the
  writes to the store and to the cache, whose failures are logged and change nothing. The
  per-stage timings, wall-clock readings that only go into the answer's meta, are left out.
\<close>

definition fresh_extraction :: "env \<Rightarrow> request \<Rightarrow> outcome \<times> event list" where
  "fresh_extraction e req =
     (if serpapi_key e = [] then (HTTP_500 ValueError, [])
      else
        (let (serp, evs) =
               extract_menu_images e (req_restaurant_name req) (or_empty (req_location req)) 0
                 (req_google_maps_url req)
         in case serp of
              Inl err \<Rightarrow> (HTTP_500 err, evs)
            | Inr serp_result \<Rightarrow>
                if sr_error serp_result \<noteq> None
                   \<and> (sr_image_urls serp_result = None \<or> sr_image_urls serp_result = Some [])
                then (HTTP_404 (opt_json (sr_error serp_result)), evs)
                else
                  (let restaurant = (case sr_restaurant serp_result of None \<Rightarrow> JDict [] | Some r \<Rightarrow> r);
                       image_urls = (case sr_image_urls serp_result of None \<Rightarrow> [] | Some us \<Rightarrow> us);
                       ocr = process_images (vision e) (take 10 image_urls);
                       ocr_events = map OcrCall (take 10 image_urls);
                       combined = combined_text ocr
                   in if combined = []
                      then (Response (no_text_response restaurant), evs @ ocr_events)
                      else
                        (case py_get restaurant ''name'' (opt_json (req_restaurant_name req)) of
                           Inl err \<Rightarrow> (HTTP_500 err, evs @ ocr_events)
                         | Inr name \<Rightarrow>
                             (let (normalized, calls) = normalize (gemini e) combined name;
                                  backend_events = map (\<lambda>(n, chunk). BackendCall n chunk) calls
                              in case normalized of
                                   Inl err \<Rightarrow> (HTTP_500 err, evs @ ocr_events @ backend_events)
                                 | Inr result \<Rightarrow>
                                     (let menu_value =
                                            (case result of NormError msg \<Rightarrow> JNull
                                             | NormMenu m n k \<Rightarrow> menu_json m);
                                          items_count =
                                            (case result of NormError msg \<Rightarrow> 0
                                             | NormMenu m n k \<Rightarrow> n);
                                          meta =
                                            JDict [(''sources'', JList [JStr ''serpapi'', JStr ''google_vision'', JStr ''gemini'']),
                                                   (''images_processed'', JInt (int (length image_urls))),
                                                   (''ocr_chars'', JInt (int (length combined))),
                                                   (''items_count'', JInt (int items_count))];
                                          got_name = dict_get (case restaurant of JDict kvs \<Rightarrow> kvs | _ \<Rightarrow> []) ''name'' JNull;
                                          final_name =
                                            (if truthy got_name then got_name
                                             else if opt_truthy (req_restaurant_name req)
                                             then opt_json (req_restaurant_name req)
                                             else JStr ''Unknown'');
                                          got_address = dict_get (case restaurant of JDict kvs \<Rightarrow> kvs | _ \<Rightarrow> []) ''address'' JNull;
                                          final_location =
                                            (if opt_truthy (req_location req) then opt_json (req_location req)
                                             else if truthy got_address then got_address
                                             else JStr []);
                                          response_data =
                                            [(''restaurant'', restaurant), (''menu'', menu_value), (''meta'', meta)];
                                          key =
                                            (case cache_key_of req of
                                               Some k \<Rightarrow> Inl k
                                             | None \<Rightarrow> Inr (final_name, final_location))
                                      in (Response (JDict (response_data @ [(''source'', JStr ''fresh'')])),
                                          evs @ ocr_events @ backend_events
                                            @ [MongoSave final_name final_location,
                                               CacheSet key (JDict response_data)])))))))"

definition extract_menu :: "env \<Rightarrow> request \<Rightarrow> outcome \<times> event list" where
  "extract_menu e req =
     (case check_cache e req of
        (Raised err, evs) \<Rightarrow> (HTTP_500 err, evs)
      | (Hit r, evs) \<Rightarrow> (Response r, evs)
      | (Miss, evs) \<Rightarrow>
          (case check_store e req of
             (Some r, evs2) \<Rightarrow> (Response r, evs @ evs2)
           | (None, evs2) \<Rightarrow>
               (let (out, evs3) = fresh_extraction e req in (out, evs @ evs2 @ evs3))))"

text \<open>The \<open>source\<close> of an answer, and the events that read a cache tier or start an OCR
  or backend call.\<close>

definition response_source :: "outcome \<Rightarrow> json option" where
  "response_source out =
     (case out of Response (JDict kvs) \<Rightarrow> map_of kvs ''source'' | _ \<Rightarrow> None)"

fun is_lookup :: "event \<Rightarrow> bool" where
  "is_lookup (CacheGet k) = True"
| "is_lookup (MongoFind n l) = True"
| "is_lookup _ = False"

fun is_ocr_or_backend :: "event \<Rightarrow> bool" where
  "is_ocr_or_backend (OcrCall u) = True"
| "is_ocr_or_backend (BackendCall n c) = True"
| "is_ocr_or_backend _ = False"

subsection \<open>Example environments and requests\<close>

text \<open>Nothing cached, nothing stored, and a search that finds no place.\<close>

definition base_env :: env where
  "base_env =
     \<lparr>cache_lookup = (\<lambda>key. None),
      regex = fragment_engine,
      mongo_collection = Inr [],
      serpapi_key = ''key'',
      maps_search = (\<lambda>query. Inr \<lparr>place_results = None, local_results = None\<rparr>),
      maps_photos = (\<lambda>data_id. Inr []),
      vision = flaky_client,
      gemini = Some soup_backend\<rparr>"

text \<open>The search finds a place with a data id; the place has no menu photos.\<close>

definition found_place :: place where
  "found_place = [(''title'', JStr ''Tandoori Treat''), (''data_id'', JStr ''0x1'')]"

definition no_photos_env :: env where
  "no_photos_env =
     base_env\<lparr>maps_search := (\<lambda>query. Inr \<lparr>place_results = Some found_place, local_results = None\<rparr>)\<rparr>"

text \<open>A cached entry and a stored document for an extraction that found no items.\<close>

definition empty_entry :: json where
  "empty_entry =
     JDict [(''restaurant'', JDict [(''name'', JStr ''Tandoori Treat'')]),
            (''menu'', menu_json combined_menu),
            (''meta'', JDict [(''items_count'', JInt 0)])]"

definition empty_doc :: stored_doc where
  "empty_doc =
     \<lparr>doc_restaurant_name = ''Tandoori Treat'', doc_location = ''Koramangala'',
      doc_restaurant_info = JDict [(''name'', JStr ''Tandoori Treat'')],
      doc_menu = menu_json combined_menu,
      doc_meta = JDict [(''items_count'', JInt 0)]\<rparr>"

definition zero_count_env :: env where
  "zero_count_env =
     base_env\<lparr>cache_lookup := (\<lambda>key. Some empty_entry), mongo_collection := Inr [empty_doc]\<rparr>"

text \<open>A cached entry with one item, and a store that holds a document with one item.\<close>

definition one_item_entry :: json where
  "one_item_entry =
     JDict [(''restaurant'', JDict [(''name'', JStr ''Tandoori Treat'')]),
            (''menu'', menu_json (menu_with [paneer] [])),
            (''meta'', JDict [(''items_count'', JInt 1)])]"

definition cache_hit_env :: env where
  "cache_hit_env = base_env\<lparr>cache_lookup := (\<lambda>key. Some one_item_entry)\<rparr>"

definition store_hit_env :: env where
  "store_hit_env = base_env\<lparr>mongo_collection := Inr [tandoori_doc]\<rparr>"

definition name_request :: request where
  "name_request =
     \<lparr>req_restaurant_name = Some ''tandoori'', req_location = Some ''koramangala'',
      req_google_maps_url = None\<rparr>"

definition url_request :: request where
  "url_request =
     \<lparr>req_restaurant_name = None, req_location = Some [],
      req_google_maps_url = Some ''https://maps.google.com/?cid=1''\<rparr>"

text \<open>The restaurant info \<open>extract_menu_images\<close> builds for that place.\<close>

definition found_info :: json where
  "found_info = JDict [(''name'', JStr ''Tandoori Treat''), (''address'', JStr []), (''rating'', JNull),
                  (''reviews'', JNull), (''phone'', JStr []), (''data_id'', JStr ''0x1'')]"

section \<open>Properties of the OCR fan-out\<close>

lemma ocr_image_index: "fst (ocr_image_from_url client url i) = i"
  by (simp add: ocr_image_from_url_def split: sum.splits list.splits)

lemma ocr_image_text: "snd (ocr_image_from_url client url i) = ocr_text client url"
  by (simp add: ocr_image_from_url_def ocr_text_def split: sum.splits list.splits)


lemma collect_texts_eq:
  "collect_texts rs its acc =
     (its @ map (\<lambda>(i, t). \<lparr>raw_text = t, image_index = i\<rparr>) (filter (\<lambda>(i, t). t \<noteq> []) rs),
      acc @ map snd (filter (\<lambda>(i, t). t \<noteq> []) rs))"
  by (induction rs its acc rule: collect_texts.induct) auto

lemma ocr_gather_eq:
  "ocr_gather client urls = zip [0..<length urls] (map (ocr_text client) urls)"
proof -
  have "ocr_gather client urls = map (\<lambda>(i, url). (i, ocr_text client url)) (enumerate 0 urls)"
    unfolding ocr_gather_def
    by (rule map_cong) (auto simp: prod_eq_iff ocr_image_index ocr_image_text)
  also have "\<dots> = zip [0..<length urls] (map (ocr_text client) urls)"
    by (simp add: enumerate_eq_zip zip_map2)
  finally show ?thesis .
qed

lemma filter_key_distinct:
  "distinct (map f xs) \<Longrightarrow> k \<in> set xs \<Longrightarrow> filter (\<lambda>x. f k = f x) xs = [k]"
proof (induction xs)
  case Nil
  then show ?case by simp
next
  case (Cons x xs)
  show ?case
  proof (cases "x = k")
    case True
    with Cons.prems have "\<forall>y\<in>set xs. f y \<noteq> f k" by (auto simp: image_iff)
    then have "filter (\<lambda>x. f k = f x) xs = []" by (auto simp: filter_empty_conv)
    with True show ?thesis by simp
  next
    case False
    with Cons.prems have "k \<in> set xs" "f x \<noteq> f k" by (auto simp: image_iff)
    with Cons show ?thesis by simp
  qed
qed

text \<open>Sorting by index undoes any reordering of the task results: the indices are
  distinct, so the sorted list is the list in task order.\<close>

lemma sort_gathered:
  assumes "mset rs = mset (ocr_gather client urls)"
  shows "sort_key fst rs = ocr_gather client urls"
proof (rule properties_for_sort_key)
  show "mset (ocr_gather client urls) = mset rs" using assms by simp
  show "sorted (map fst (ocr_gather client urls))" by (simp add: ocr_gather_eq)
  fix k assume k: "k \<in> set (ocr_gather client urls)"
  have d: "distinct (map fst (ocr_gather client urls))" by (simp add: ocr_gather_eq)
  have "mset (map fst rs) = mset (map fst (ocr_gather client urls))"
    using assms by (metis mset_map)
  then have d': "distinct (map fst rs)" using d by (metis mset_eq_imp_distinct_iff)
  have k': "k \<in> set rs" using k assms by (metis mset_eq_setD)
  show "filter (\<lambda>x. fst k = fst x) (ocr_gather client urls) = filter (\<lambda>x. fst k = fst x) rs"
    by (simp add: filter_key_distinct [OF d k] filter_key_distinct [OF d' k'])
qed

lemma combine_results_items:
  "items (combine_results rs) =
     map (\<lambda>(i, t). \<lparr>raw_text = t, image_index = i\<rparr>) (filter (\<lambda>(i, t). t \<noteq> []) (sort_key fst rs))"
  by (simp add: combine_results_def collect_texts_eq)

lemma combine_results_text:
  "combined_text (combine_results rs) =
     py_join ocr_separator (map snd (filter (\<lambda>(i, t). t \<noteq> []) (sort_key fst rs)))"
  by (simp add: combine_results_def collect_texts_eq)

lemma sort_gather_id: "sort_key fst (ocr_gather client urls) = ocr_gather client urls"
  by (rule sort_gathered) simp

lemma process_images_combine: "process_images client urls = combine_results (ocr_gather client urls)"
  by (simp add: process_images_def combine_results_def ocr_gather_def)

lemma nonempty_texts_of_gather:
  "map snd (filter (\<lambda>(i, t). t \<noteq> []) (ocr_gather client urls)) =
     filter (\<lambda>t. t \<noteq> []) (map (ocr_text client) urls)"
proof -
  have "map snd (filter (\<lambda>(i, t). t \<noteq> []) xs) = filter (\<lambda>t. t \<noteq> []) (map snd xs)"
    for xs :: "(nat \<times> string) list"
    by (induction xs) auto
  then show ?thesis by (simp add: ocr_gather_eq)
qed

subsection \<open>C2: one slot per URL in the gathered results, not in the returned items\<close>

text \<open>
  Claim C2, as the code has it. The gathered task results hold one (index, text) slot per
  input URL, in input order, and a call that raises or finds no text leaves the empty
  string in its slot. The \<open>items\<close> list that \<open>process_images\<close> returns keeps only the
  slots with a non-empty text, each tagged with its original index: it has as many
  entries as there are URLs with text, which is at most the number of URLs.
\<close>

theorem gathered_slots_and_returned_items:
  "length (ocr_gather client urls) = length urls
   \<and> (\<forall>i<length urls. ocr_gather client urls ! i = (i, ocr_text client (urls ! i)))
   \<and> (\<forall>url. (isl (client url) \<or> client url = Inr []) \<longrightarrow> ocr_text client url = [])
   \<and> items (process_images client urls) =
       map (\<lambda>(i, t). \<lparr>raw_text = t, image_index = i\<rparr>)
         (filter (\<lambda>(i, t). t \<noteq> []) (ocr_gather client urls))
   \<and> length (items (process_images client urls)) =
       length (filter (\<lambda>url. ocr_text client url \<noteq> []) urls)
   \<and> length (items (process_images client urls)) \<le> length urls"
proof -
  have a: "length (ocr_gather client urls) = length urls" by (simp add: ocr_gather_eq)
  have b: "\<forall>i<length urls. ocr_gather client urls ! i = (i, ocr_text client (urls ! i))"
    by (simp add: ocr_gather_eq)
  have c: "\<forall>url. (isl (client url) \<or> client url = Inr []) \<longrightarrow> ocr_text client url = []"
    by (auto simp: ocr_text_def ocr_image_from_url_def isl_def)
  have d: "items (process_images client urls) =
       map (\<lambda>(i, t). \<lparr>raw_text = t, image_index = i\<rparr>)
         (filter (\<lambda>(i, t). t \<noteq> []) (ocr_gather client urls))"
    by (simp add: process_images_combine combine_results_items sort_gather_id)
  have "length (items (process_images client urls)) =
      length (map snd (filter (\<lambda>(i, t). t \<noteq> []) (ocr_gather client urls)))"
    by (simp add: d)
  also have "\<dots> = length (filter (\<lambda>url. ocr_text client url \<noteq> []) urls)"
    by (simp only: nonempty_texts_of_gather filter_map length_map comp_def)
  finally have e: "length (items (process_images client urls)) =
       length (filter (\<lambda>url. ocr_text client url \<noteq> []) urls)" .
  have f: "length (items (process_images client urls)) \<le> length urls"
    by (simp add: e)
  from a b c d e f show ?thesis by blast
qed

theorem gathered_slots_and_returned_items_witness:
  "ocr_gather flaky_client [''u0'', ''u1''] = [(0, ''Dal Makhani 220''), (1, [])]
   \<and> items (process_images flaky_client [''u0'', ''u1'']) =
       [\<lparr>raw_text = ''Dal Makhani 220'', image_index = 0\<rparr>]"
  using gathered_slots_and_returned_items [of flaky_client "[''u0'', ''u1'']"]
  by (simp add: ocr_gather_def flaky_client_def ocr_image_from_url_def enumerate_eq_zip upt_rec)

text \<open>
  C2 as stated fails: of two URLs, the second failing, \<open>process_images\<close> returns one
  per-image entry, not two.
\<close>

theorem per_image_slot_dropped:
  "items (process_images flaky_client [''u0'', ''u1'']) =
     [\<lparr>raw_text = ''Dal Makhani 220'', image_index = 0\<rparr>]
   \<and> length (items (process_images flaky_client [''u0'', ''u1''])) \<noteq> length [''u0'', ''u1'']"
  by (simp add: process_images_def combine_results_def ocr_gather_def flaky_client_def
      ocr_image_from_url_def)

subsection \<open>C3: the combined text does not depend on completion order\<close>

text \<open>
  Claim C3. Let \<open>rs\<close> be the task results in any completion order (any permutation of
  the gathered results). Combining \<open>rs\<close> gives the result of \<open>process_images\<close>; its
  combined text is the returned per-image texts joined with the separator; the returned
  items are in increasing input index, each holding the text of the URL at its index;
  and the combined text is the non-empty OCR texts of the URLs, in input order, joined
  with the separator.
\<close>

theorem combined_text_order_invariant:
  assumes "mset rs = mset (ocr_gather client urls)"
  shows "combine_results rs = process_images client urls
   \<and> combined_text (process_images client urls) =
       py_join ocr_separator (map raw_text (items (process_images client urls)))
   \<and> sorted_wrt (<) (map image_index (items (process_images client urls)))
   \<and> (\<forall>it \<in> set (items (process_images client urls)).
         image_index it < length urls \<and> raw_text it = ocr_text client (urls ! image_index it))
   \<and> combined_text (process_images client urls) =
       py_join ocr_separator (filter (\<lambda>t. t \<noteq> []) (map (ocr_text client) urls))"
proof -
  let ?g = "ocr_gather client urls"
  let ?kept = "filter (\<lambda>(i, t). t \<noteq> []) ?g"
  have its: "items (process_images client urls) = map (\<lambda>(i, t). \<lparr>raw_text = t, image_index = i\<rparr>) ?kept"
    by (simp add: process_images_combine combine_results_items sort_gather_id)
  have ctext: "combined_text (process_images client urls) = py_join ocr_separator (map snd ?kept)"
    by (simp add: process_images_combine combine_results_text sort_gather_id)
  have a: "combine_results rs = process_images client urls"
    by (simp add: process_images_combine combine_results_def sort_gathered [OF assms] sort_gather_id)
  have "map raw_text (items (process_images client urls)) = map snd ?kept"
    by (simp add: its comp_def case_prod_beta)
  then have b: "combined_text (process_images client urls) =
       py_join ocr_separator (map raw_text (items (process_images client urls)))"
    by (simp add: ctext)
  have idx: "map image_index (items (process_images client urls)) = map fst ?kept"
    by (simp add: its comp_def case_prod_beta)
  have "sorted_wrt (<) (map fst ?g)" by (simp add: ocr_gather_eq)
  then have "sorted_wrt (\<lambda>x y. fst x < fst y) ?kept"
    by (simp add: sorted_wrt_map sorted_wrt_filter)
  then have c: "sorted_wrt (<) (map image_index (items (process_images client urls)))"
    by (simp add: idx sorted_wrt_map)
  have d: "\<forall>it \<in> set (items (process_images client urls)).
         image_index it < length urls \<and> raw_text it = ocr_text client (urls ! image_index it)"
    by (auto simp: its ocr_gather_eq set_zip)
  have e: "combined_text (process_images client urls) =
       py_join ocr_separator (filter (\<lambda>t. t \<noteq> []) (map (ocr_text client) urls))"
    by (simp only: ctext nonempty_texts_of_gather)
  from a b c d e show ?thesis by blast
qed

theorem combined_text_order_invariant_witness:
  "mset [(1, ''B''), (2, ''C''), (0, ''A'')] = mset (ocr_gather abc_client [''u0'', ''u1'', ''u2''])
   \<and> combined_text (combine_results [(1, ''B''), (2, ''C''), (0, ''A'')]) =
       ''A'' @ ocr_separator @ ''B'' @ ocr_separator @ ''C''
   \<and> combined_text (process_images abc_client [''u0'', ''u1'', ''u2'']) =
       ''A'' @ ocr_separator @ ''B'' @ ocr_separator @ ''C''"
proof -
  have g: "ocr_gather abc_client [''u0'', ''u1'', ''u2''] = [(0, ''A''), (1, ''B''), (2, ''C'')]"
    by (simp add: ocr_gather_def abc_client_def ocr_image_from_url_def enumerate_eq_zip upt_rec)
  have m: "mset [(1, ''B''), (2, ''C''), (0::nat, ''A'')] = mset (ocr_gather abc_client [''u0'', ''u1'', ''u2''])"
    by (simp add: g)
  have t: "ocr_text abc_client ''u0'' = ''A''" "ocr_text abc_client ''u1'' = ''B''"
    "ocr_text abc_client ''u2'' = ''C''"
    by (simp_all add: ocr_text_def abc_client_def ocr_image_from_url_def)
  note th = combined_text_order_invariant [OF m]
  from th have c1: "combine_results [(1, ''B''), (2, ''C''), (0, ''A'')] =
      process_images abc_client [''u0'', ''u1'', ''u2'']"
    by blast
  from th have c5: "combined_text (process_images abc_client [''u0'', ''u1'', ''u2'']) =
       py_join ocr_separator (filter (\<lambda>t. t \<noteq> []) (map (ocr_text abc_client) [''u0'', ''u1'', ''u2'']))"
    by blast
  have "combined_text (process_images abc_client [''u0'', ''u1'', ''u2'']) =
       ''A'' @ ocr_separator @ ''B'' @ ocr_separator @ ''C''"
    by (simp add: c5 t)
  with c1 m show ?thesis by simp
qed

section \<open>Properties of the chunking\<close>


lemma length_paragraph_break: "length paragraph_break = 2"
  by (simp add: paragraph_break_def)

lemma split_text_nonempty: "split_text text chunk_size \<noteq> []"
  by (simp add: split_text_def Let_def split: prod.splits)

lemma greedy_from_nonempty: "greedy_from budget grp used ps \<noteq> []"
  by (induction ps arbitrary: grp used) auto

lemma cat_group_snoc: "cat_group (grp @ [p]) = cat_group grp @ p @ paragraph_break"
  by (simp add: cat_group_def)

lemma cat_group_nonempty: "grp \<noteq> [] \<Longrightarrow> cat_group grp \<noteq> []"
  by (cases grp) (auto simp: cat_group_def paragraph_break_def)

lemma split_loop_greedy:
  "grp \<noteq> [] \<Longrightarrow>
   split_loop budget ps (cat_group grp) chunks =
     (cat_group (last (greedy_from budget grp (length (cat_group grp)) ps)),
      chunks @ map (\<lambda>g. py_strip (cat_group g)) (butlast (greedy_from budget grp (length (cat_group grp)) ps)))"
proof (induction ps arbitrary: grp chunks)
  case Nil
  then show ?case by simp
next
  case (Cons p ps)
  have len: "length (cat_group (grp @ [p])) = length (cat_group grp) + length p + 2"
    by (simp add: cat_group_snoc paragraph_break_def)
  have one: "cat_group [p] = p @ paragraph_break" "length (cat_group [p]) = length p + 2"
    by (simp_all add: cat_group_def paragraph_break_def)
  show ?case
  proof (cases "length (cat_group grp) + length p < budget")
    case True
    have "split_loop budget (p # ps) (cat_group grp) chunks
        = split_loop budget ps (cat_group (grp @ [p])) chunks"
      using True by (simp add: cat_group_snoc)
    also have "\<dots> = (cat_group (last (greedy_from budget (grp @ [p]) (length (cat_group (grp @ [p]))) ps)),
      chunks @ map (\<lambda>g. py_strip (cat_group g)) (butlast (greedy_from budget (grp @ [p]) (length (cat_group (grp @ [p]))) ps)))"
      by (rule Cons.IH) simp
    finally show ?thesis using True by (simp add: len)
  next
    case False
    have ne: "cat_group grp \<noteq> []" using Cons.prems by (rule cat_group_nonempty)
    have "split_loop budget (p # ps) (cat_group grp) chunks
        = split_loop budget ps (cat_group [p]) (chunks @ [py_strip (cat_group grp)])"
      using False ne by (simp add: one)
    also have "\<dots> = (cat_group (last (greedy_from budget [p] (length (cat_group [p])) ps)),
      (chunks @ [py_strip (cat_group grp)]) @ map (\<lambda>g. py_strip (cat_group g)) (butlast (greedy_from budget [p] (length (cat_group [p])) ps)))"
      by (rule Cons.IH) simp
    finally show ?thesis using False by (simp add: length_paragraph_break one(2) greedy_from_nonempty)
  qed
qed

lemma split_paragraphs_nonempty: "split_paragraphs s \<noteq> []"
  by (induction s rule: split_paragraphs.induct) (auto split: list.splits)

lemma render_group_cat: "render_group g = py_strip (cat_group g)"
  by (simp add: render_group_def)

lemma greedy_from_groups_nonempty:
  "grp \<noteq> [] \<Longrightarrow> g \<in> set (greedy_from budget grp used ps) \<Longrightarrow> g \<noteq> []"
  by (induction ps arbitrary: grp used) (auto split: if_splits)

lemma split_text_greedy:
  "split_text text budget = map render_group (greedy_groups budget (split_paragraphs text))"
proof -
  obtain p ps where ps: "split_paragraphs text = p # ps"
    using split_paragraphs_nonempty by (cases "split_paragraphs text") auto
  let ?G = "greedy_from budget [p] (length p + 2) ps"
  have one: "cat_group [p] = p @ paragraph_break" "length (cat_group [p]) = length p + 2"
    by (simp_all add: cat_group_def paragraph_break_def)
  have first: "split_loop budget (p # ps) [] [] = split_loop budget ps (cat_group [p]) []"
    by (simp add: one)
  have "split_loop budget ps (cat_group [p]) [] =
      (cat_group (last ?G), map (\<lambda>g. py_strip (cat_group g)) (butlast ?G))"
    using split_loop_greedy [of "[p]" budget ps "[]"] by (simp add: one(2))
  with first have loop: "split_loop budget (p # ps) [] [] =
      (cat_group (last ?G), map (\<lambda>g. py_strip (cat_group g)) (butlast ?G))"
    by (simp only:)
  have "last ?G \<in> set ?G" using greedy_from_nonempty by (metis last_in_set)
  then have "last ?G \<noteq> []" using greedy_from_groups_nonempty [of "[p]"] by blast
  then have cur: "cat_group (last ?G) \<noteq> []" by (rule cat_group_nonempty)
  have "split_text text budget =
      map (\<lambda>g. py_strip (cat_group g)) (butlast ?G) @ [py_strip (cat_group (last ?G))]"
    unfolding split_text_def ps loop using cur by simp
  also have "\<dots> = map (\<lambda>g. py_strip (cat_group g)) (butlast ?G @ [last ?G])"
    by simp
  also have "butlast ?G @ [last ?G] = ?G"
    using greedy_from_nonempty by (metis append_butlast_last_id)
  finally show ?thesis
    by (simp add: greedy_groups_def ps render_group_cat [abs_def])
qed

lemma concat_greedy_from: "concat (greedy_from budget grp used ps) = grp @ ps"
  by (induction ps arbitrary: grp used) auto

lemma concat_greedy_groups: "concat (greedy_groups budget ps) = ps"
  by (cases ps) (simp_all add: greedy_groups_def concat_greedy_from)


lemma is_space_newline: "is_space newline"
  by (simp add: is_space_def newline_def)

lemma length_py_strip: "length (py_strip s) \<le> length s"
proof -
  have "length (py_strip s) \<le> length (dropWhile is_space s)"
    unfolding py_strip_def
    using length_dropWhile_le [of is_space "rev (dropWhile is_space s)"] by simp
  also have "\<dots> \<le> length s" by (rule length_dropWhile_le)
  finally show ?thesis .
qed

lemma py_strip_trailing_space:
  assumes "\<forall>c \<in> set w. is_space c"
  shows "py_strip (s @ w) = py_strip s"
proof (cases "\<forall>c \<in> set s. is_space c")
  case True
  with assms have "dropWhile is_space (s @ w) = []" "dropWhile is_space s = []"
    by (auto simp: dropWhile_eq_Nil_conv)
  then show ?thesis unfolding py_strip_def by (simp only:)
next
  case False
  then obtain x where "x \<in> set s" "\<not> is_space x" by blast
  then have "dropWhile is_space (s @ w) = dropWhile is_space s @ w"
    by (rule dropWhile_append1)
  moreover have "dropWhile is_space (rev w @ rev (dropWhile is_space s))
      = dropWhile is_space (rev (dropWhile is_space s))"
    by (rule dropWhile_append2) (use assms in simp)
  ultimately show ?thesis by (simp add: py_strip_def)
qed

lemma py_strip_paragraph_break: "py_strip (s @ paragraph_break) = py_strip s"
  by (rule py_strip_trailing_space) (simp add: paragraph_break_def is_space_newline)

lemma render_group_length:
  assumes "g \<noteq> []"
  shows "length (render_group g) + 2 \<le> length (cat_group g)"
proof -
  from assms obtain h p where g: "g = h @ [p]" by (metis rev_exhaust)
  have "render_group g = py_strip (cat_group h @ p)"
    using py_strip_paragraph_break [of "cat_group h @ p"]
    by (simp add: render_group_cat g cat_group_snoc)
  then have "length (render_group g) \<le> length (cat_group h @ p)"
    using length_py_strip [of "cat_group h @ p"] by simp
  then show ?thesis by (simp add: g cat_group_snoc length_paragraph_break)
qed

lemma greedy_from_bound:
  "used = length (cat_group grp) \<Longrightarrow> (2 \<le> length grp \<longrightarrow> used < budget + 2) \<Longrightarrow>
   g \<in> set (greedy_from budget grp used ps) \<Longrightarrow> 2 \<le> length g \<Longrightarrow>
   length (cat_group g) < budget + 2"
proof (induction ps arbitrary: grp used)
  case Nil
  then show ?case by simp
next
  case (Cons p ps)
  show ?case
  proof (cases "used + length p < budget")
    case True
    with Cons.prems have "g \<in> set (greedy_from budget (grp @ [p]) (used + length p + 2) ps)"
      by simp
    moreover have "used + length p + 2 = length (cat_group (grp @ [p]))"
      using Cons.prems(1) by (simp add: cat_group_snoc length_paragraph_break)
    moreover have "used + length p + 2 < budget + 2" using True by simp
    ultimately show ?thesis using Cons.IH Cons.prems(4) by blast
  next
    case False
    with Cons.prems have "g = grp \<or> g \<in> set (greedy_from budget [p] (length p + 2) ps)"
      by simp
    then show ?thesis
    proof
      assume "g = grp"
      with Cons.prems show ?thesis by simp
    next
      assume "g \<in> set (greedy_from budget [p] (length p + 2) ps)"
      moreover have "length p + 2 = length (cat_group [p])"
        by (simp add: cat_group_def length_paragraph_break)
      ultimately show ?thesis using Cons.IH [of "length p + 2" "[p]"] Cons.prems(4) by simp
    qed
  qed
qed

lemma greedy_groups_bound:
  assumes "g \<in> set (greedy_groups budget ps)" "2 \<le> length g"
  shows "length (render_group g) < budget"
proof -
  from assms(1) obtain p ps' where ps: "ps = p # ps'"
    and g: "g \<in> set (greedy_from budget [p] (length p + 2) ps')"
    by (cases ps) (auto simp: greedy_groups_def)
  have "length (cat_group g) < budget + 2"
    by (rule greedy_from_bound [OF _ _ g assms(2)])
       (simp_all add: cat_group_def length_paragraph_break)
  moreover have "length (render_group g) + 2 \<le> length (cat_group g)"
    using assms(2) by (intro render_group_length) auto
  ultimately show ?thesis by simp
qed

lemma greedy_groups_nonempty_groups:
  "g \<in> set (greedy_groups budget ps) \<Longrightarrow> g \<noteq> []"
  by (cases ps) (auto simp: greedy_groups_def dest: greedy_from_groups_nonempty [rotated])

lemma split_paragraphs_no_break:
  "\<not> contains s paragraph_break \<Longrightarrow> split_paragraphs s = [s]"
  by (induction s rule: split_paragraphs.induct) (auto simp: paragraph_break_def)

lemma no_newline_no_break: "newline \<notin> set s \<Longrightarrow> \<not> contains s paragraph_break"
  by (induction s) (auto simp: paragraph_break_def)

lemma split_text_no_break:
  assumes "\<not> contains s paragraph_break"
  shows "split_text s budget = [py_strip s]"
  by (simp add: split_text_greedy split_paragraphs_no_break [OF assms] greedy_groups_def
      render_group_def cat_group_def py_strip_paragraph_break)

lemma py_strip_no_space:
  "\<forall>c \<in> set s. \<not> is_space c \<Longrightarrow> py_strip s = s"
proof -
  assume a: "\<forall>c \<in> set s. \<not> is_space c"
  have "s = [] \<or> \<not> is_space (hd s)" using a by (cases s) auto
  then have 1: "dropWhile is_space s = s" by (simp add: dropWhile_eq_self_iff)
  have "rev s = [] \<or> \<not> is_space (hd (rev s))"
    using a by (cases s rule: rev_cases) auto
  then have 2: "dropWhile is_space (rev s) = rev s" by (simp only: dropWhile_eq_self_iff)
  show ?thesis by (simp add: py_strip_def 1 2)
qed

lemma join_split_paragraphs: "py_join paragraph_break (split_paragraphs s) = s"
proof (induction s rule: split_paragraphs.induct)
  case (1 a b cs)
  show ?case
  proof (cases "a = newline \<and> b = newline")
    case True
    then show ?thesis using 1(1) split_paragraphs_nonempty [of cs]
      by (cases "split_paragraphs cs") (auto simp: paragraph_break_def)
  next
    case False
    then show ?thesis using 1(2) split_paragraphs_nonempty [of "b # cs"]
      by (cases "split_paragraphs (b # cs)"; cases "tl (split_paragraphs (b # cs))")
         (auto simp: paragraph_break_def)
  qed
qed simp_all

subsection \<open>C9: greedy chunks of whole paragraphs; a lone long paragraph is not truncated\<close>

text \<open>
  Claim C9, as the code has it. For every corpus and budget, \<open>_split_text\<close> splits the
  corpus at the double-newline separators (joining the paragraphs with the separator
  gives the corpus back) and returns one chunk per group of the greedy grouping: the
  groups are non-empty runs of consecutive paragraphs, in order, that together are all
  the paragraphs, where a group takes the next paragraph as long as the text gathered so
  far (each paragraph with its separator) plus that paragraph is shorter than the
  budget. A chunk accumulated from two or more paragraphs is shorter than the budget.
  A corpus without a double newline gives exactly one chunk: the corpus with the
  surrounding whitespace stripped, whatever its length.
\<close>

theorem split_text_greedy_chunks:
  "split_text s budget = map render_group (greedy_groups budget (split_paragraphs s))
   \<and> py_join paragraph_break (split_paragraphs s) = s
   \<and> concat (greedy_groups budget (split_paragraphs s)) = split_paragraphs s
   \<and> (\<forall>g \<in> set (greedy_groups budget (split_paragraphs s)).
         g \<noteq> [] \<and> (2 \<le> length g \<longrightarrow> length (render_group g) < budget))
   \<and> (\<not> contains s paragraph_break \<longrightarrow> split_text s budget = [py_strip s])"
  using split_text_greedy join_split_paragraphs concat_greedy_groups
    greedy_groups_nonempty_groups greedy_groups_bound split_text_no_break
  by blast

lemma split_three_paragraphs: "split_paragraphs three_paragraphs = [''ab'', ''cd'', ''efgh'']"
  by (simp add: three_paragraphs_def paragraph_break_def newline_def)

theorem split_text_greedy_chunks_witness:
  "split_text three_paragraphs 7 = [''ab'' @ paragraph_break @ ''cd'', ''efgh'']
   \<and> greedy_groups 7 (split_paragraphs three_paragraphs) = [[''ab'', ''cd''], [''efgh'']]
   \<and> length (render_group [''ab'', ''cd'']) < 7
   \<and> \<not> contains ''abcdefghij'' paragraph_break
   \<and> split_text ''abcdefghij'' 7 = [''abcdefghij'']"
proof -
  note th = split_text_greedy_chunks [of three_paragraphs 7]
  note th2 = split_text_greedy_chunks [of "''abcdefghij''" 7]
  have g: "greedy_groups 7 (split_paragraphs three_paragraphs) = [[''ab'', ''cd''], [''efgh'']]"
    by (simp add: split_three_paragraphs greedy_groups_def)
  have r1: "render_group [''ab'', ''cd''] = ''ab'' @ paragraph_break @ ''cd''"
    by (simp add: render_group_def cat_group_def py_strip_def paragraph_break_def newline_def
        is_space_def)
  have r2: "render_group [''efgh''] = ''efgh''"
    by (simp add: render_group_def cat_group_def py_strip_def paragraph_break_def newline_def
        is_space_def)
  from th have "split_text three_paragraphs 7 = map render_group (greedy_groups 7 (split_paragraphs three_paragraphs))"
    by blast
  then have a: "split_text three_paragraphs 7 = [''ab'' @ paragraph_break @ ''cd'', ''efgh'']"
    by (simp add: g r1 r2)
  from th have "\<forall>g \<in> set (greedy_groups 7 (split_paragraphs three_paragraphs)).
         g \<noteq> [] \<and> (2 \<le> length g \<longrightarrow> length (render_group g) < 7)"
    by blast
  then have b: "length (render_group [''ab'', ''cd'']) < 7" by (simp add: g)
  have c: "\<not> contains ''abcdefghij'' paragraph_break"
    by (simp add: paragraph_break_def newline_def)
  have "py_strip ''abcdefghij'' = ''abcdefghij''"
    by (simp add: py_strip_def is_space_def)
  moreover from th2 have "\<not> contains ''abcdefghij'' paragraph_break \<longrightarrow>
      split_text ''abcdefghij'' 7 = [py_strip ''abcdefghij'']"
    by blast
  ultimately have d: "split_text ''abcdefghij'' 7 = [''abcdefghij'']" using c by simp
  from a g b c d show ?thesis by blast
qed

text \<open>
  C9 as stated fails: a corpus of 2001 letters without any double newline comes back as
  one chunk of 2001 characters, above the budget of 2000. The truncating fallback
  \<open>[text[:chunk_size]]\<close> is never reached, since the loop always leaves one chunk.
\<close>

theorem long_paragraph_not_truncated:
  "\<not> contains (replicate 2001 (CHR ''a'')) paragraph_break
   \<and> split_text (replicate 2001 (CHR ''a'')) chunk_budget = [replicate 2001 (CHR ''a'')]
   \<and> \<not> length (replicate 2001 (CHR ''a'')) \<le> chunk_budget"
proof -
  have nb: "\<not> contains (replicate 2001 (CHR ''a'')) paragraph_break"
    by (rule no_newline_no_break) (simp add: newline_def)
  have "py_strip (replicate 2001 (CHR ''a'')) = replicate 2001 (CHR ''a'')"
    by (rule py_strip_no_space) (simp add: is_space_def)
  with split_text_no_break [OF nb, of chunk_budget] nb show ?thesis
    by (simp add: chunk_budget_def)
qed

section \<open>Properties of the normalisation\<close>

subsection \<open>C5: a short corpus never reaches the backend\<close>

text \<open>
  Claim C5, as the code has it. For every corpus shorter than the threshold of 50
  characters, \<open>normalize\<close> calls the backend not once and returns an error result:
  "Insufficient text" when the backend model is configured, "Gemini not configured"
  when it is not (that check comes first). The backend is called exactly when the model
  is configured and the corpus has at least 50 characters.
\<close>

theorem normalize_short_text:
  "(length raw < min_text_length \<longrightarrow>
      snd (normalize model raw name) = []
      \<and> fst (normalize model raw name) =
          Inr (NormError (if model = None then ''Gemini not configured'' else ''Insufficient text'')))
   \<and> (snd (normalize model raw name) \<noteq> [] \<longleftrightarrow> model \<noteq> None \<and> min_text_length \<le> length raw)"
proof (cases model)
  case None
  then show ?thesis by (simp add: normalize_def)
next
  case (Some m)
  show ?thesis
  proof (cases "length raw < min_text_length")
    case True
    with Some show ?thesis by (simp add: normalize_def)
  next
    case False
    then have "raw \<noteq> []" by (auto simp: min_text_length_def)
    with False Some show ?thesis
      by (simp add: normalize_def Let_def split_text_nonempty)
  qed
qed

theorem normalize_short_text_witness:
  "length ''0123456789'' < min_text_length
   \<and> normalize (Some soup_backend) ''0123456789'' (JStr ''Cafe'') =
       (Inr (NormError ''Insufficient text''), [])"
  using normalize_short_text [of "''0123456789''" "Some soup_backend" "JStr ''Cafe''"]
  by (simp add: min_text_length_def prod_eq_iff)

text \<open>
  C5 as stated fails: without a configured model, a corpus of 10 characters gets the
  error "Gemini not configured", not "Insufficient text".
\<close>

theorem unconfigured_short_text:
  "length ''0123456789'' < min_text_length
   \<and> normalize None ''0123456789'' (JStr ''Cafe'') = (Inr (NormError ''Gemini not configured''), [])
   \<and> fst (normalize None ''0123456789'' (JStr ''Cafe'')) \<noteq> Inr (NormError ''Insufficient text'')"
  by (simp add: normalize_def min_text_length_def)

section \<open>Properties of the merge\<close>

lemma extend_slot_keys: "map fst (extend_slot c xs grp) = map fst grp"
  by (induction grp) auto

lemma map_of_extend_slot:
  "map_of (extend_slot c xs grp) k =
     (if k = c then map_option (\<lambda>v. v @ xs) (map_of grp k) else map_of grp k)"
  by (induction grp) auto

lemma dict_set_keys: "map_of t k = Some v \<Longrightarrow> map fst (dict_set k v' t) = map fst t"
  by (induction t) (auto split: if_splits)

lemma map_of_dict_set: "map_of (dict_set k v t) = (map_of t)(k \<mapsto> v)"
  by (induction t) (auto simp: fun_eq_iff)

lemma menu_keys_dict_set:
  "map_of t g = Some grp \<Longrightarrow> map fst grp' = map fst grp \<Longrightarrow>
   menu_keys (dict_set g grp' t) = menu_keys t"
  by (induction t) (auto simp: menu_keys_def split: if_splits)

lemma listed_items_Cons:
  "listed_items ((k, v) # kvs) c =
     (case v of JList xs \<Rightarrow> if k = c then xs else [] | _ \<Rightarrow> []) @ listed_items kvs c"
  by (simp add: listed_items_def)

lemma merge_group_items_present:
  "map_of t g = Some grp \<Longrightarrow>
   \<exists>t' grp'. merge_group_items t g kvs = Inr t'
     \<and> menu_keys t' = menu_keys t
     \<and> map_of t' = (map_of t)(g \<mapsto> grp')
     \<and> map fst grp' = map fst grp
     \<and> (\<forall>c. map_of grp' c = map_option (\<lambda>v. v @ listed_items kvs c) (map_of grp c))"
proof (induction kvs arbitrary: t grp)
  case Nil
  then show ?case by (auto simp: listed_items_def option.map_ident fun_eq_iff intro!: exI [of _ grp])
next
  case (Cons kv kvs)
  obtain k v where kv: "kv = (k, v)" by (cases kv)
  show ?case
  proof (cases "\<exists>xs. v = JList xs \<and> k \<in> set (map fst grp)")
    case True
    then obtain xs where v: "v = JList xs" and k: "k \<in> set (map fst grp)" by blast
    let ?g1 = "extend_slot k xs grp"
    let ?t1 = "dict_set g ?g1 t"
    have m1: "map_of ?t1 g = Some ?g1" by (simp add: map_of_dict_set)
    from Cons.IH [OF m1] obtain t' grp' where
      r: "merge_group_items ?t1 g kvs = Inr t'"
      and ks: "menu_keys t' = menu_keys ?t1"
      and mo: "map_of t' = (map_of ?t1)(g \<mapsto> grp')"
      and gk: "map fst grp' = map fst ?g1"
      and sl: "\<forall>c. map_of grp' c = map_option (\<lambda>v. v @ listed_items kvs c) (map_of ?g1 c)"
      by blast
    have "merge_group_items t g (kv # kvs) = Inr t'"
      using Cons.prems k r by (simp add: kv v)
    moreover have "menu_keys t' = menu_keys t"
      using ks menu_keys_dict_set [OF Cons.prems, of ?g1] by (simp add: extend_slot_keys)
    moreover have "map_of t' = (map_of t)(g \<mapsto> grp')"
      using mo by (simp add: map_of_dict_set)
    moreover have "map fst grp' = map fst grp" using gk by (simp add: extend_slot_keys)
    moreover have "\<forall>c. map_of grp' c = map_option (\<lambda>v. v @ listed_items (kv # kvs) c) (map_of grp c)"
      using sl by (auto simp: kv v listed_items_Cons map_of_extend_slot option.map_comp comp_def)
    ultimately show ?thesis by blast
  next
    case False
    from Cons.IH [OF Cons.prems] obtain t' grp' where
      r: "merge_group_items t g kvs = Inr t'"
      and ks: "menu_keys t' = menu_keys t"
      and mo: "map_of t' = (map_of t)(g \<mapsto> grp')"
      and gk: "map fst grp' = map fst grp"
      and sl: "\<forall>c. map_of grp' c = map_option (\<lambda>v. v @ listed_items kvs c) (map_of grp c)"
      by blast
    have "merge_group_items t g (kv # kvs) = Inr t'"
      using False Cons.prems r by (auto simp: kv split: json.splits)
    moreover have "\<forall>c. map_of grp' c = map_option (\<lambda>v. v @ listed_items (kv # kvs) c) (map_of grp c)"
    proof
      fix c
      show "map_of grp' c = map_option (\<lambda>v. v @ listed_items (kv # kvs) c) (map_of grp c)"
      proof (cases "\<exists>xs. v = JList xs \<and> k = c")
        case True
        with False have "map_of grp c = None" by (auto simp: map_of_eq_None_iff)
        then show ?thesis using sl by simp
      next
        case False
        then have "listed_items (kv # kvs) c = listed_items kvs c"
          by (auto simp: kv listed_items_Cons split: json.splits)
        then show ?thesis using sl by simp
      qed
    qed
    ultimately show ?thesis using ks mo gk by blast
  qed
qed


lemma map_of_menu_keys: "map_of (menu_keys m) g = map_option (map fst) (map_of m g)"
  by (induction m) (auto simp: menu_keys_def)

lemma is_menu_keys:
  assumes k: "menu_keys m' = menu_keys m"
  shows "is_menu m' = is_menu m"
proof -
  have h: "map_option (map fst) (map_of m' g) = map_option (map fst) (map_of m g)" for g
  proof -
    have "map_of (menu_keys m') g = map_of (menu_keys m) g" by (simp only: k)
    then show ?thesis by (simp only: map_of_menu_keys)
  qed
  have "(case map_of m' g of None \<Rightarrow> False | Some grp \<Rightarrow> distinct (map fst grp))
      = (case map_of m g of None \<Rightarrow> False | Some grp \<Rightarrow> distinct (map fst grp))" for g
    using h [of g] by (cases "map_of m' g"; cases "map_of m g") auto
  then show ?thesis by (simp add: is_menu_def)
qed

lemma extends_by_is_menu: "extends_by m m' f \<Longrightarrow> is_menu m \<Longrightarrow> is_menu m'"
proof -
  assume e: "extends_by m m' f" and m: "is_menu m"
  from e have "menu_keys m' = menu_keys m" by (simp add: extends_by_def)
  from is_menu_keys [OF this] m show ?thesis by simp
qed

lemma extends_by_refl: "(\<And>g c. f g c = []) \<Longrightarrow> extends_by m m f"
  by (simp add: extends_by_def option.map_ident)

lemma extends_by_trans:
  "extends_by m m1 f \<Longrightarrow> extends_by m1 m2 h \<Longrightarrow> extends_by m m2 (\<lambda>g c. f g c @ h g c)"
  by (simp add: extends_by_def option.map_comp comp_def)

lemma extends_by_cong: "extends_by m m' f \<Longrightarrow> (\<And>g c. f g c = h g c) \<Longrightarrow> extends_by m m' h"
  by (simp add: extends_by_def)

lemma merge_veg_type_extends:
  assumes t: "map_of t g = Some grp"
    and g: "g = ''vegetarian'' \<or> g = ''non_vegetarian''"
    and ok: "count_group src g = Inr n"
  shows "\<exists>t'. merge_veg_type t src g = Inr t'
     \<and> extends_by t t' (\<lambda>g' c. if g' = g then chunk_items src g c else [])"
proof (cases "py_in g src = Inr True")
  case True
  with ok obtain v kvs where v: "py_getitem src g = Inr v" and kvs: "v = JDict kvs"
    by (cases "py_getitem src g"; cases "projr (py_getitem src g)")
       (auto simp: count_group_def bind_exn_def)
  from v obtain groups where src: "src = JDict groups" and mg: "map_of groups g = Some (JDict kvs)"
    by (cases src) (auto simp: kvs split: option.splits)
  from merge_group_items_present [OF t, of kvs] obtain t' grp' where
    r: "merge_group_items t g kvs = Inr t'"
    and ks: "menu_keys t' = menu_keys t"
    and mo: "map_of t' = (map_of t)(g \<mapsto> grp')"
    and sl: "\<forall>c. map_of grp' c = map_option (\<lambda>v. v @ listed_items kvs c) (map_of grp c)"
    by blast
  have "merge_veg_type t src g = Inr t'"
    using True v r by (simp add: merge_veg_type_def bind_exn_def kvs)
  moreover have "extends_by t t' (\<lambda>g' c. if g' = g then chunk_items src g c else [])"
    unfolding extends_by_def
  proof (intro conjI allI)
    show "menu_keys t' = menu_keys t" by (rule ks)
    fix g' c
    have ci: "chunk_items src g c = listed_items kvs c"
      using g by (simp add: chunk_items_def src mg)
    show "slot t' g' c = map_option (\<lambda>v. v @ (if g' = g then chunk_items src g c else [])) (slot t g' c)"
    proof (cases "g' = g")
      case True
      then show ?thesis using sl t by (simp add: slot_def mo ci)
    next
      case False
      then show ?thesis by (simp add: slot_def mo option.map_ident)
    qed
  qed
  ultimately show ?thesis by blast
next
  case False
  with ok have absent: "py_in g src = Inr False"
    by (cases "py_in g src") (auto simp: count_group_def bind_exn_def)
  have "chunk_items src g c = []" for c
  proof (cases src)
    case (JDict groups)
    with absent have "map_of groups g = None" by (simp add: map_of_eq_None_iff)
    then show ?thesis by (simp add: chunk_items_def JDict)
  qed (simp_all add: chunk_items_def)
  moreover have "merge_veg_type t src g = Inr t"
    using absent by (simp add: merge_veg_type_def bind_exn_def)
  ultimately show ?thesis by (auto intro: extends_by_refl)
qed

lemma count_items_groups:
  "count_items src = Inr n \<Longrightarrow>
   \<exists>a b. count_group src ''vegetarian'' = Inr a \<and> count_group src ''non_vegetarian'' = Inr b"
  by (auto simp: count_items_def bind_exn_def split: sum.splits)

lemma is_menu_groups:
  "is_menu m \<Longrightarrow> (\<exists>v. map_of m ''vegetarian'' = Some v) \<and> (\<exists>w. map_of m ''non_vegetarian'' = Some w)"
  by (auto simp: is_menu_def split: option.splits)

lemma chunk_items_other:
  "g \<noteq> ''vegetarian'' \<Longrightarrow> g \<noteq> ''non_vegetarian'' \<Longrightarrow> chunk_items src g c = []"
  by (simp add: chunk_items_def)

lemma chunk_items_split:
  "(if g = ''vegetarian'' then chunk_items src ''vegetarian'' c else []) @
   (if g = ''non_vegetarian'' then chunk_items src ''non_vegetarian'' c else []) = chunk_items src g c"
proof -
  consider "g = ''vegetarian''" | "g = ''non_vegetarian''"
    | "g \<noteq> ''vegetarian''" "g \<noteq> ''non_vegetarian''" by blast
  then show ?thesis
  proof cases
    case 1
    then show ?thesis by simp
  next
    case 2
    then show ?thesis by simp
  next
    case 3
    then show ?thesis by (simp add: chunk_items_other)
  qed
qed

lemma merge_menus_extends:
  assumes m: "is_menu t" and ok: "count_items src = Inr n"
  shows "\<exists>t'. merge_menus t src = Inr t' \<and> extends_by t t' (chunk_items src)"
proof -
  from count_items_groups [OF ok] obtain a b where
    a: "count_group src ''vegetarian'' = Inr a" and b: "count_group src ''non_vegetarian'' = Inr b"
    by blast
  from is_menu_groups [OF m] obtain v where v: "map_of t ''vegetarian'' = Some v" by blast
  have gv: "''vegetarian'' = ''vegetarian'' \<or> ''vegetarian'' = ''non_vegetarian''" by simp
  have gn: "''non_vegetarian'' = ''vegetarian'' \<or> ''non_vegetarian'' = ''non_vegetarian''" by simp
  from merge_veg_type_extends [OF v gv a] obtain t1 where
    r1: "merge_veg_type t src ''vegetarian'' = Inr t1"
    and e1: "extends_by t t1 (\<lambda>g' c. if g' = ''vegetarian'' then chunk_items src ''vegetarian'' c else [])"
    by blast
  have "is_menu t1" using e1 m by (rule extends_by_is_menu)
  from is_menu_groups [OF this] obtain w where w: "map_of t1 ''non_vegetarian'' = Some w" by blast
  from merge_veg_type_extends [OF w gn b] obtain t2 where
    r2: "merge_veg_type t1 src ''non_vegetarian'' = Inr t2"
    and e2: "extends_by t1 t2 (\<lambda>g' c. if g' = ''non_vegetarian'' then chunk_items src ''non_vegetarian'' c else [])"
    by blast
  have "merge_menus t src = Inr t2" using r1 r2 by (simp add: merge_menus_def bind_exn_def)
  moreover have "extends_by t t2 (chunk_items src)"
    by (rule extends_by_cong [OF extends_by_trans [OF e1 e2]]) (rule chunk_items_split)
  ultimately show ?thesis by blast
qed

lemma merge_results_extends:
  assumes "is_menu t" "\<forall>r \<in> set rs. accepted r"
  shows "\<exists>t'. merge_results t rs = Inr t'
     \<and> extends_by t t' (\<lambda>g c. concat (map (\<lambda>r. result_items r g c) rs))"
  using assms
proof (induction rs arbitrary: t)
  case Nil
  then show ?case by (auto intro: extends_by_refl)
next
  case (Cons r rs)
  show ?case
  proof (cases r)
    case ChunkError
    with Cons show ?thesis by simp
  next
    case (ChunkMenu src)
    with Cons.prems obtain n where ok: "count_items src = Inr n"
      by (cases "count_items src") (auto simp: accepted_def)
    from merge_menus_extends [OF Cons.prems(1) ok] obtain t1 where
      r1: "merge_menus t src = Inr t1" and e1: "extends_by t t1 (chunk_items src)" by blast
    have "is_menu t1" using e1 Cons.prems(1) by (rule extends_by_is_menu)
    from Cons.IH [OF this] Cons.prems(2) obtain t2 where
      r2: "merge_results t1 rs = Inr t2"
      and e2: "extends_by t1 t2 (\<lambda>g c. concat (map (\<lambda>r. result_items r g c) rs))"
      by auto
    have "merge_results t (r # rs) = Inr t2"
      using r1 r2 by (simp add: ChunkMenu bind_exn_def)
    moreover have "extends_by t t2 (\<lambda>g c. concat (map (\<lambda>r. result_items r g c) (r # rs)))"
      by (rule extends_by_cong [OF extends_by_trans [OF e1 e2]]) (simp add: ChunkMenu)
    ultimately show ?thesis by blast
  qed
qed

lemma parse_chunk_accepted: "accepted (parse_chunk model text restaurant_name i)"
  by (simp add: parse_chunk_def accepted_def split: sum.splits)

lemma chunk_results_accepted: "\<forall>r \<in> set (chunk_results model restaurant_name chunks). accepted r"
  by (auto simp: chunk_results_def parse_chunk_accepted)

lemma count_lists_slots:
  "count_lists (map snd (map (\<lambda>(c, xs). (c, JList xs)) grp)) = sum_list (map (\<lambda>(c, xs). length xs) grp)"
  by (induction grp) auto

lemma count_lists_slots_comp:
  "count_lists (map (snd \<circ> (\<lambda>(c, xs). (c, JList xs))) grp) = sum_list (map (\<lambda>(c, xs). length xs) grp)"
  by (induction grp) auto

lemma sum_slots_distinct:
  "distinct (map fst grp) \<Longrightarrow>
   sum_list (map (\<lambda>(c, xs). length xs) grp) =
   sum_list (map (\<lambda>c. length (the (map_of grp c))) (map fst grp))"
proof (induction grp)
  case Nil
  then show ?case by simp
next
  case (Cons kv grp)
  obtain k v where kv: "kv = (k, v)" by (cases kv)
  from Cons.prems have k: "k \<notin> set (map fst grp)" and d: "distinct (map fst grp)"
    by (simp_all add: kv)
  define f where "f = (\<lambda>c. length (the (map_of (kv # grp) c)))"
  have fk: "f k = length v" by (simp add: f_def kv)
  have "map f (map fst grp) = map (\<lambda>c. length (the (map_of grp c))) (map fst grp)"
    by (rule map_cong) (use k in \<open>auto simp: kv f_def\<close>)
  moreover have "sum_list (map f (map fst (kv # grp))) = f k + sum_list (map f (map fst grp))"
    by (simp only: kv list.map fst_conv sum_list.Cons)
  ultimately have "sum_list (map f (map fst (kv # grp))) =
      length v + sum_list (map (\<lambda>c. length (the (map_of grp c))) (map fst grp))"
    by (simp only: fk)
  also have "\<dots> = length v + sum_list (map (\<lambda>(c, xs). length xs) grp)"
    using Cons.IH [OF d] by simp
  also have "\<dots> = sum_list (map (\<lambda>(c, xs). length xs) (kv # grp))"
    by (simp add: kv)
  finally show ?case by (simp only: f_def)
qed

lemma count_group_menu_json:
  "count_group (menu_json m) g =
     Inr (case map_of m g of None \<Rightarrow> 0 | Some grp \<Rightarrow> sum_list (map (\<lambda>(c, xs). length xs) grp))"
proof (cases "map_of m g")
  case None
  then have "g \<notin> set (map fst m)" by (simp add: map_of_eq_None_iff)
  then show ?thesis using None
    by (simp add: count_group_def menu_json_def bind_exn_def image_image case_prod_beta)
next
  case (Some grp)
  then have "g \<in> set (map fst m)" by (metis map_of_eq_None_iff option.distinct(1) set_map)
  moreover have "map_of (map (\<lambda>(g, s). (g, slots_json s)) m) g = Some (slots_json grp)"
    using Some by (simp add: map_of_map)
  ultimately show ?thesis using Some
    by (simp add: count_group_def menu_json_def bind_exn_def image_image case_prod_beta
        slots_json_def count_lists_slots_comp)
qed

lemma count_items_menu_json:
  assumes "is_menu m"
  shows "count_items (menu_json m) = Inr (slot_count m)"
proof -
  from assms obtain v w where v: "map_of m ''vegetarian'' = Some v" "distinct (map fst v)"
    and w: "map_of m ''non_vegetarian'' = Some w" "distinct (map fst w)"
    by (auto simp: is_menu_def split: option.splits)
  show ?thesis
    by (simp add: count_items_def count_group_menu_json bind_exn_def slot_count_def v w
        sum_slots_distinct)
qed

lemma slot_count_alt:
  "slot_count m =
     sum_list (map (\<lambda>g. case map_of (menu_keys m) g of
                           None \<Rightarrow> 0
                         | Some cs \<Rightarrow> sum_list (map (\<lambda>c. length (the (slot m g c))) cs))
                 [''vegetarian'', ''non_vegetarian''])"
  by (simp add: slot_count_def map_of_menu_keys slot_def split: option.splits)

lemma slot_count_cong:
  assumes k: "menu_keys m = menu_keys m'"
    and l: "\<And>g c. map_option length (slot m g c) = map_option length (slot m' g c)"
  shows "slot_count m = slot_count m'"
proof -
  have h: "length (the (slot m g c)) = length (the (slot m' g c))" for g c
    using l [of g c] by (cases "slot m g c"; cases "slot m' g c") auto
  show ?thesis by (simp add: slot_count_alt k h cong: option.case_cong)
qed

lemma is_menu_combined_menu: "is_menu combined_menu"
  by (simp add: is_menu_def combined_menu_def)

lemma menu_keys_combined_menu: "menu_keys combined_menu = vocabulary"
  by (simp add: menu_keys_def combined_menu_def vocabulary_def)

lemma slot_combined_menu:
  "slot combined_menu g c =
     (case map_of vocabulary g of
        None \<Rightarrow> None
      | Some cs \<Rightarrow> if c \<in> set cs then Some [] else None)"
  by (simp add: slot_def combined_menu_def vocabulary_def)

text \<open>The example replies, parsed and merged in both orders.\<close>

lemma parse_soup: "parse_chunk soup_backend x n i = ChunkMenu soup_reply"
  by (simp add: parse_chunk_def soup_backend_def soup_reply_def count_items_def count_group_def bind_exn_def)

lemma parse_curry: "parse_chunk curry_backend x n i = ChunkMenu curry_reply"
  by (simp add: parse_chunk_def curry_backend_def curry_reply_def count_items_def count_group_def bind_exn_def)

lemma merge_soup_curry:
  "merge_results combined_menu [ChunkMenu soup_reply, ChunkMenu curry_reply] =
     Inr (menu_with [paneer, samosa] [fish_curry])"
  by (simp add: combined_menu_def soup_reply_def curry_reply_def merge_menus_def merge_veg_type_def
      bind_exn_def menu_with_def paneer_def samosa_def fish_curry_def)

lemma merge_curry_soup:
  "merge_results combined_menu [ChunkMenu curry_reply, ChunkMenu soup_reply] =
     Inr (menu_with [samosa, paneer] [fish_curry])"
  by (simp add: combined_menu_def soup_reply_def curry_reply_def merge_menus_def merge_veg_type_def
      bind_exn_def menu_with_def paneer_def samosa_def fish_curry_def)

lemma merge_soup:
  "merge_results combined_menu [ChunkMenu soup_reply] = Inr (menu_with [paneer] [])"
  by (simp add: combined_menu_def soup_reply_def merge_menus_def merge_veg_type_def
      bind_exn_def menu_with_def paneer_def)

lemma count_menu_with:
  "count_items (menu_json (menu_with a b)) = Inr (length a + length b)"
  by (simp add: menu_with_def menu_json_def slots_json_def count_items_def count_group_def bind_exn_def)

text \<open>\<open>normalize\<close> on a corpus of sufficient length never raises: it returns the merged
  menu, whose keys are the vocabulary, with its item count and the number of chunks.\<close>

lemma normalize_menu:
  assumes "min_text_length \<le> length raw"
  shows "\<exists>merged n. fst (normalize (Some model) raw name) =
      Inr (NormMenu merged n (length (split_text raw chunk_budget)))
    \<and> menu_keys merged = vocabulary \<and> count_items (menu_json merged) = Inr n"
proof -
  let ?rs = "chunk_results model name (split_text raw chunk_budget)"
  from merge_results_extends [OF is_menu_combined_menu chunk_results_accepted]
  obtain merged where r: "merge_results combined_menu ?rs = Inr merged"
    and e: "extends_by combined_menu merged (\<lambda>g c. concat (map (\<lambda>r. result_items r g c) ?rs))"
    by blast
  have keys: "menu_keys merged = vocabulary"
    using e by (simp add: extends_by_def menu_keys_combined_menu)
  have m: "is_menu merged" using e is_menu_combined_menu by (rule extends_by_is_menu)
  have "raw \<noteq> []" "\<not> length raw < min_text_length"
    using assms by (auto simp: min_text_length_def)
  then have "fst (normalize (Some model) raw name) =
      Inr (NormMenu merged (slot_count merged) (length (split_text raw chunk_budget)))"
    by (simp add: normalize_def Let_def r bind_exn_def count_items_menu_json [OF m])
  with keys count_items_menu_json [OF m] show ?thesis by blast
qed

subsection \<open>C4: merging never changes the keys of the running menu\<close>

text \<open>
  Claim C4. Whatever the backend replies for whatever chunks, merging the chunk results
  into the menu of \<open>normalize\<close> succeeds, and the merged menu has exactly the groups and
  categories of the fixed vocabulary, in order. Each slot of the vocabulary holds the
  items the chunk results list under that very group and category, in the order of the
  results; there is no slot for any other group or category. The item count is the number
  of items listed under the vocabulary's slots: a key outside the vocabulary adds nothing.
\<close>

theorem merge_keeps_vocabulary:
  "\<exists>merged. merge_results combined_menu (chunk_results model name chunks) = Inr merged
     \<and> menu_keys merged = vocabulary
     \<and> (\<forall>g c. slot merged g c =
           (case map_of vocabulary g of
              None \<Rightarrow> None
            | Some cs \<Rightarrow>
                if c \<in> set cs
                then Some (concat (map (\<lambda>r. result_items r g c) (chunk_results model name chunks)))
                else None))
     \<and> count_items (menu_json merged) =
         Inr (sum_list (map (\<lambda>(g, cs).
                sum_list (map (\<lambda>c. length (concat (map (\<lambda>r. result_items r g c)
                                                    (chunk_results model name chunks)))) cs))
              vocabulary))"
proof -
  let ?rs = "chunk_results model name chunks"
  let ?f = "\<lambda>g c. concat (map (\<lambda>r. result_items r g c) ?rs)"
  from merge_results_extends [OF is_menu_combined_menu chunk_results_accepted]
  obtain merged where r: "merge_results combined_menu ?rs = Inr merged"
    and e: "extends_by combined_menu merged ?f"
    by blast
  have keys: "menu_keys merged = vocabulary"
    using e by (simp add: extends_by_def menu_keys_combined_menu)
  have sl: "slot merged g c =
      (case map_of vocabulary g of
         None \<Rightarrow> None
       | Some cs \<Rightarrow> if c \<in> set cs then Some (?f g c) else None)" for g c
  proof -
    have "slot merged g c = map_option (\<lambda>v. v @ ?f g c) (slot combined_menu g c)"
      using e by (simp add: extends_by_def)
    then show ?thesis by (simp add: slot_combined_menu split: option.splits)
  qed
  have m: "is_menu merged" using e is_menu_combined_menu by (rule extends_by_is_menu)
  have "slot_count merged =
      sum_list (map (\<lambda>(g, cs). sum_list (map (\<lambda>c. length (?f g c)) cs)) vocabulary)"
    unfolding slot_count_alt keys by (simp add: vocabulary_def sl)
  with count_items_menu_json [OF m] have cnt: "count_items (menu_json merged) =
      Inr (sum_list (map (\<lambda>(g, cs). sum_list (map (\<lambda>c. length (?f g c)) cs)) vocabulary))"
    by simp
  from r keys sl cnt show ?thesis by blast
qed

theorem merge_keeps_vocabulary_witness:
  "merge_results combined_menu (chunk_results soup_backend (JStr ''Cafe'') [''chunk'']) =
     Inr (menu_with [paneer] [])
   \<and> menu_keys (menu_with [paneer] []) = vocabulary
   \<and> count_items soup_reply = Inr 2
   \<and> count_items (menu_json (menu_with [paneer] [])) = Inr 1"
proof -
  have r: "chunk_results soup_backend (JStr ''Cafe'') [''chunk''] = [ChunkMenu soup_reply]"
    by (simp add: chunk_results_def parse_soup)
  have c: "count_items soup_reply = Inr 2"
    by (simp add: soup_reply_def count_items_def count_group_def bind_exn_def)
  from merge_keeps_vocabulary [of soup_backend "JStr ''Cafe''" "[''chunk'']"]
  obtain merged where a: "merge_results combined_menu [ChunkMenu soup_reply] = Inr merged"
    and b: "menu_keys merged = vocabulary"
    unfolding r by blast
  from a [unfolded merge_soup] have "merged = menu_with [paneer] []" by simp
  with b have "menu_keys (menu_with [paneer] []) = vocabulary" by simp
  then show ?thesis
    unfolding r merge_soup c count_menu_with by simp
qed

subsection \<open>C6: merging in either order gives the same slots up to order\<close>

text \<open>
  Claim C6. For every running menu (a dict with the two veg groups) and every two chunk
  results, as \<open>_parse_chunk\<close> returns them, merging them in the order R1, R2 and in the
  order R2, R1 both succeed; the two merged menus have the same keys, the same total item
  count, and in every slot the same multiset of items.
\<close>

theorem merge_order_irrelevant:
  assumes "is_menu t"
  shows "\<exists>m12 m21.
     merge_results t [parse_chunk b1 x1 n1 i1, parse_chunk b2 x2 n2 i2] = Inr m12
     \<and> merge_results t [parse_chunk b2 x2 n2 i2, parse_chunk b1 x1 n1 i1] = Inr m21
     \<and> menu_keys m12 = menu_keys m21
     \<and> count_items (menu_json m12) = count_items (menu_json m21)
     \<and> (\<forall>g c. map_option mset (slot m12 g c) = map_option mset (slot m21 g c))"
proof -
  let ?r1 = "parse_chunk b1 x1 n1 i1" and ?r2 = "parse_chunk b2 x2 n2 i2"
  have a12: "\<forall>r \<in> set [?r1, ?r2]. accepted r" and a21: "\<forall>r \<in> set [?r2, ?r1]. accepted r"
    by (simp_all add: parse_chunk_accepted)
  from merge_results_extends [OF assms a12] obtain m12 where
    r12: "merge_results t [?r1, ?r2] = Inr m12"
    and e12: "extends_by t m12 (\<lambda>g c. concat (map (\<lambda>r. result_items r g c) [?r1, ?r2]))"
    by blast
  from merge_results_extends [OF assms a21] obtain m21 where
    r21: "merge_results t [?r2, ?r1] = Inr m21"
    and e21: "extends_by t m21 (\<lambda>g c. concat (map (\<lambda>r. result_items r g c) [?r2, ?r1]))"
    by blast
  have keys: "menu_keys m12 = menu_keys m21"
    using e12 e21 by (simp add: extends_by_def)
  have s12: "slot m12 g c = map_option (\<lambda>v. v @ result_items ?r1 g c @ result_items ?r2 g c) (slot t g c)"
    for g c using e12 by (simp add: extends_by_def)
  have s21: "slot m21 g c = map_option (\<lambda>v. v @ result_items ?r2 g c @ result_items ?r1 g c) (slot t g c)"
    for g c using e21 by (simp add: extends_by_def)
  have ms: "map_option mset (slot m12 g c) = map_option mset (slot m21 g c)" for g c
    by (cases "slot t g c") (simp_all add: s12 s21)
  have ln: "map_option length (slot m12 g c) = map_option length (slot m21 g c)" for g c
    by (cases "slot t g c") (simp_all add: s12 s21)
  have "is_menu m12" "is_menu m21"
    using e12 e21 assms by (auto intro: extends_by_is_menu)
  then have "count_items (menu_json m12) = count_items (menu_json m21)"
    using slot_count_cong [OF keys ln] by (simp add: count_items_menu_json)
  with r12 r21 keys ms show ?thesis by blast
qed

theorem merge_order_irrelevant_witness:
  "is_menu combined_menu
   \<and> merge_results combined_menu
        [parse_chunk soup_backend ''x'' (JStr ''Cafe'') 0, parse_chunk curry_backend ''y'' (JStr ''Cafe'') 1] =
       Inr (menu_with [paneer, samosa] [fish_curry])
   \<and> merge_results combined_menu
        [parse_chunk curry_backend ''y'' (JStr ''Cafe'') 1, parse_chunk soup_backend ''x'' (JStr ''Cafe'') 0] =
       Inr (menu_with [samosa, paneer] [fish_curry])
   \<and> count_items (menu_json (menu_with [paneer, samosa] [fish_curry])) =
       count_items (menu_json (menu_with [samosa, paneer] [fish_curry]))
   \<and> map_option mset (slot (menu_with [paneer, samosa] [fish_curry]) ''vegetarian'' ''starters'') =
       map_option mset (slot (menu_with [samosa, paneer] [fish_curry]) ''vegetarian'' ''starters'')"
proof -
  from merge_order_irrelevant [OF is_menu_combined_menu,
      of soup_backend "''x''" "JStr ''Cafe''" 0 curry_backend "''y''" "JStr ''Cafe''" 1]
  obtain m12 m21 where
    a: "merge_results combined_menu [ChunkMenu soup_reply, ChunkMenu curry_reply] = Inr m12"
    and b: "merge_results combined_menu [ChunkMenu curry_reply, ChunkMenu soup_reply] = Inr m21"
    and c: "count_items (menu_json m12) = count_items (menu_json m21)"
    and d: "\<forall>g c. map_option mset (slot m12 g c) = map_option mset (slot m21 g c)"
    unfolding parse_soup parse_curry by blast
  from a [unfolded merge_soup_curry] have m12: "m12 = menu_with [paneer, samosa] [fish_curry]"
    by simp
  from b [unfolded merge_curry_soup] have m21: "m21 = menu_with [samosa, paneer] [fish_curry]"
    by simp
  from c d have "count_items (menu_json (menu_with [paneer, samosa] [fish_curry])) =
       count_items (menu_json (menu_with [samosa, paneer] [fish_curry]))"
    and "map_option mset (slot (menu_with [paneer, samosa] [fish_curry]) ''vegetarian'' ''starters'') =
       map_option mset (slot (menu_with [samosa, paneer] [fish_curry]) ''vegetarian'' ''starters'')"
    unfolding m12 m21 by blast+
  then show ?thesis
    by (simp only: parse_soup parse_curry merge_soup_curry merge_curry_soup is_menu_combined_menu simp_thms)
qed

section \<open>Properties of the durable store lookup\<close>

lemma quantifier_is_meta: "is_quantifier c \<Longrightarrow> is_meta c"
  by (auto simp: is_quantifier_def is_meta_def)

lemma dot_is_meta: "is_meta (CHR ''.'')"
  by (simp add: is_meta_def)

lemma parse_literal:
  "\<forall>c \<in> set p. \<not> is_meta c \<Longrightarrow> parse_pattern p = Inr (map (\<lambda>c. (Lit c, One)) p)"
proof (induction p rule: parse_pattern.induct)
  case 1
  then show ?case by simp
next
  case (2 c)
  then show ?case using quantifier_is_meta [of c] dot_is_meta by auto
next
  case (3 c q rest)
  from "3.prems" have c: "\<not> is_meta c" "\<not> is_quantifier c" "c \<noteq> CHR ''.''"
    and q: "\<not> is_quantifier q" and r: "\<forall>c \<in> set (q # rest). \<not> is_meta c"
    using quantifier_is_meta dot_is_meta by auto
  from "3.IH"(2) c q r have "parse_pattern (q # rest) = Inr (map (\<lambda>c. (Lit c, One)) (q # rest))"
    by simp
  then show ?case using c q by simp
qed

lemma match_here_literal:
  "match_here (map (\<lambda>c. (Lit c, One)) p) s = starts_with (map to_lower s) (map to_lower p)"
  by (induction p arbitrary: s) (case_tac s; auto)+

lemma match_anywhere_literal:
  "match_anywhere (map (\<lambda>c. (Lit c, One)) p) s = ci_contains s p"
proof (induction s)
  case Nil
  then show ?case by (cases p) (simp_all add: ci_contains_def)
next
  case (Cons c cs)
  then show ?case
    using match_here_literal [of p "c # cs"] by (simp add: ci_contains_def)
qed

lemma literal_engine_fragment: "literal_engine fragment_engine"
  by (auto simp: literal_engine_def fragment_engine_def parse_literal match_anywhere_literal)

lemma find_exists:
  "d \<in> set docs \<Longrightarrow> P d \<Longrightarrow> \<exists>d'. find P docs = Some d' \<and> d' \<in> set docs \<and> P d'"
  by (induction docs) auto

subsection \<open>C7: queries without metacharacters are substring matches\<close>

text \<open>
  Claim C7, as the code has it. \<open>get_menu\<close> passes the query name and location to the
  store as case-insensitive regular-expression patterns. Whenever the query name is
  non-empty, neither query string contains a pattern metacharacter, and some stored
  document has the query name as a case-insensitive substring of its name and the query
  location (if one is given) as a case-insensitive substring of its location, the lookup
  returns a stored document that matches in this sense. This holds for any engine that
  treats a pattern without metacharacters as literal text.
\<close>

theorem get_menu_literal_query:
  assumes eng: "literal_engine engine"
    and q: "q \<noteq> []" "\<forall>c \<in> set q. \<not> is_meta c"
    and l: "case l of None \<Rightarrow> True | Some lp \<Rightarrow> \<forall>c \<in> set lp. \<not> is_meta c"
    and d: "d \<in> set docs" "ci_contains (doc_restaurant_name d) q"
    and dl: "case l of None \<Rightarrow> True | Some lp \<Rightarrow> ci_contains (doc_location d) lp"
  shows "\<exists>d'. get_menu engine (Inr docs) (Some q) l = Inr (Some d')
     \<and> d' \<in> set docs
     \<and> ci_contains (doc_restaurant_name d') q
     \<and> (case l of None \<Rightarrow> True | Some lp \<Rightarrow> ci_contains (doc_location d') lp)"
proof -
  from eng q(2) obtain nm where nm: "engine q = Inr nm" "\<forall>s. nm s = ci_contains s q"
    unfolding literal_engine_def by blast
  show ?thesis
  proof (cases "l = None \<or> l = Some []")
    case True
    from find_exists [of d docs "\<lambda>d. nm (doc_restaurant_name d)"] d nm(2)
    obtain d' where "find (\<lambda>d. nm (doc_restaurant_name d)) docs = Some d'"
      "d' \<in> set docs" "ci_contains (doc_restaurant_name d') q"
      by auto
    moreover have "ci_contains s []" for s
      by (cases s) (simp_all add: ci_contains_def)
    ultimately show ?thesis
      using True q(1) nm(1) by (auto simp: get_menu_def find_one_def bind_exn_def)
  next
    case False
    then obtain lp where lp: "l = Some lp" "lp \<noteq> []" by (cases l) auto
    from eng l lp(1) obtain lm where lm: "engine lp = Inr lm" "\<forall>s. lm s = ci_contains s lp"
      unfolding literal_engine_def by auto
    let ?P = "\<lambda>d. nm (doc_restaurant_name d) \<and> lm (doc_location d)"
    from d dl nm(2) lm(2) lp(1) have "?P d" by simp
    from find_exists [of d docs ?P, OF d(1) this]
    obtain d' where "find ?P docs = Some d'" "d' \<in> set docs" "?P d'"
      by blast
    then show ?thesis
      using lp q(1) nm lm by (auto simp: get_menu_def find_one_def bind_exn_def)
  qed
qed

theorem get_menu_literal_query_witness:
  "literal_engine fragment_engine
   \<and> tandoori_doc \<in> set [plus_doc, tandoori_doc]
   \<and> ci_contains (doc_restaurant_name tandoori_doc) ''tandoori''
   \<and> ci_contains (doc_location tandoori_doc) ''koramangala''
   \<and> get_menu fragment_engine (Inr [plus_doc, tandoori_doc]) (Some ''tandoori'') (Some ''koramangala'') =
       Inr (Some tandoori_doc)"
proof -
  have a: "tandoori_doc \<in> set [plus_doc, tandoori_doc]" by simp
  have b: "ci_contains (doc_restaurant_name tandoori_doc) ''tandoori''" by code_simp
  have c: "ci_contains (doc_location tandoori_doc) ''koramangala''" by code_simp
  have nq: "''tandoori'' \<noteq> []" "\<forall>c \<in> set ''tandoori''. \<not> is_meta c" by (simp_all add: is_meta_def)
  have nl: "case Some ''koramangala'' of None \<Rightarrow> True | Some lp \<Rightarrow> \<forall>c \<in> set lp. \<not> is_meta c"
    by (simp add: is_meta_def)
  have dl: "case Some ''koramangala'' of None \<Rightarrow> True | Some lp \<Rightarrow> ci_contains (doc_location tandoori_doc) lp"
    using c by simp
  from get_menu_literal_query [OF literal_engine_fragment nq nl a b dl]
  obtain d' where "get_menu fragment_engine (Inr [plus_doc, tandoori_doc]) (Some ''tandoori'')
      (Some ''koramangala'') = Inr (Some d')"
    by blast
  moreover have "get_menu fragment_engine (Inr [plus_doc, tandoori_doc]) (Some ''tandoori'')
      (Some ''koramangala'') = Inr (Some tandoori_doc)"
    by code_simp
  ultimately show ?thesis using literal_engine_fragment a b c by simp
qed

text \<open>
  C7 as stated fails: the query is a pattern, not literal text. The name "A+B Cafe"
  has the query "a+b" as a case-insensitive substring, and the lookup finds nothing,
  since the pattern asks for one or more "a" followed by "b". The other way round, the
  query "t.ndoori" is no substring of "Tandoori Treat", and the lookup returns that
  document, since the dot matches any character.
\<close>

theorem query_is_a_pattern:
  "ci_contains (doc_restaurant_name plus_doc) ''a+b''
   \<and> ci_contains (doc_location plus_doc) ''indiranagar''
   \<and> get_menu fragment_engine (Inr [plus_doc]) (Some ''a+b'') (Some ''indiranagar'') = Inr None
   \<and> \<not> ci_contains (doc_restaurant_name tandoori_doc) ''t.ndoori''
   \<and> get_menu fragment_engine (Inr [tandoori_doc]) (Some ''t.ndoori'') None = Inr (Some tandoori_doc)"
  by code_simp

section \<open>Properties of the extraction endpoint\<close>

lemma search_restaurant_events: "snd (search_restaurant e n l) = [SerpSearch (py_strip (n @ '' '' @ l))]"
  by (simp add: search_restaurant_def Let_def)

lemma extract_menu_images_events:
  "\<forall>ev \<in> set (snd (extract_menu_images e n l k u)). \<not> is_lookup ev \<and> \<not> is_ocr_or_backend ev"
  by (auto simp: extract_menu_images_def Let_def search_restaurant_def split: prod.splits sum.splits if_splits)

lemma fresh_no_lookup: "\<forall>ev \<in> set (snd (fresh_extraction e req)). \<not> is_lookup ev"
proof -
  obtain serp evs where s: "extract_menu_images e (req_restaurant_name req) (or_empty (req_location req)) 0
                 (req_google_maps_url req) = (serp, evs)"
    by (cases "extract_menu_images e (req_restaurant_name req) (or_empty (req_location req)) 0
                 (req_google_maps_url req)")
  have evs: "\<forall>ev \<in> set evs. \<not> is_lookup ev"
    using extract_menu_images_events [of e "req_restaurant_name req" "or_empty (req_location req)" 0
        "req_google_maps_url req"] by (simp add: s)
  show ?thesis
    using evs
    by (auto simp: fresh_extraction_def s Let_def split: sum.splits prod.splits if_splits)
qed

lemma map_of_append_source:
  "''source'' \<notin> set (map fst xs) \<Longrightarrow> map_of (xs @ [(''source'', v)]) ''source'' = Some v"
  by (induction xs) auto

lemma fresh_source:
  "response_source (fst (fresh_extraction e req)) = None
   \<or> response_source (fst (fresh_extraction e req)) = Some (JStr ''fresh'')"
  by (auto simp: fresh_extraction_def Let_def response_source_def no_text_response_def
      split: sum.splits prod.splits if_splits)

lemma fresh_source_not_cached:
  "response_source (fst (fresh_extraction e req)) \<noteq> Some (JStr ''cache'')
   \<and> response_source (fst (fresh_extraction e req)) \<noteq> Some (JStr ''mongodb'')"
  using fresh_source [of e req] by auto

lemma serp_result_shapes:
  assumes "extract_menu_images e n l k u = (Inr sr, evs)"
  shows "sr = \<lparr>sr_error = Some ''Restaurant not found on Google Maps'', sr_restaurant = None,
               sr_image_urls = None\<rparr>
     \<or> (\<exists>r. sr = \<lparr>sr_error = Some ''No data_id found'', sr_restaurant = Some r, sr_image_urls = Some []\<rparr>)
     \<or> (\<exists>r us. sr = \<lparr>sr_error = None, sr_restaurant = Some r, sr_image_urls = Some us\<rparr>)"
  using assms
  by (auto simp: extract_menu_images_def Let_def split: prod.splits sum.splits if_splits)

lemma process_images_empty: "combined_text (process_images client []) = []"
  by (simp add: process_images_def)

subsection \<open>C10: a request without a restaurant name goes straight to the fresh extraction\<close>

text \<open>
  Claim C10. For every request whose restaurant name is absent or empty (a request that
  only gives a maps URL), the handler is the fresh extraction: it makes no lookup in the
  fast cache and none in the durable store, and the source of its answer is neither
  "cache" nor "mongodb".
\<close>

theorem url_only_request_is_fresh:
  assumes "\<not> opt_truthy (req_restaurant_name req)"
  shows "extract_menu e req = fresh_extraction e req
   \<and> (\<forall>ev \<in> set (snd (extract_menu e req)). \<not> is_lookup ev)
   \<and> response_source (fst (extract_menu e req)) \<noteq> Some (JStr ''cache'')
   \<and> response_source (fst (extract_menu e req)) \<noteq> Some (JStr ''mongodb'')"
proof -
  have "check_cache e req = (Miss, [])"
    using assms by (simp add: check_cache_def cache_key_of_def)
  moreover have "check_store e req = (None, [])"
    using assms by (simp add: check_store_def)
  ultimately have eq: "extract_menu e req = fresh_extraction e req"
    by (simp add: extract_menu_def split: prod.splits)
  show ?thesis
    unfolding eq using fresh_no_lookup [of e req] fresh_source_not_cached [of e req] by blast
qed

theorem url_only_request_is_fresh_witness:
  "\<not> opt_truthy (req_restaurant_name url_request)
   \<and> extract_menu no_photos_env url_request =
       (Response (no_text_response
          (JDict [(''name'', JStr ''Tandoori Treat''), (''address'', JStr []), (''rating'', JNull),
                  (''reviews'', JNull), (''phone'', JStr []), (''data_id'', JStr ''0x1'')])),
        [SerpSearch ''https://maps.google.com/?cid=1'', SerpPhotos (JStr ''0x1'')])"
proof -
  have a: "\<not> opt_truthy (req_restaurant_name url_request)"
    by (simp add: url_request_def opt_truthy_def)
  have "fresh_extraction no_photos_env url_request =
       (Response (no_text_response
          (JDict [(''name'', JStr ''Tandoori Treat''), (''address'', JStr []), (''rating'', JNull),
                  (''reviews'', JNull), (''phone'', JStr []), (''data_id'', JStr ''0x1'')])),
        [SerpSearch ''https://maps.google.com/?cid=1'', SerpPhotos (JStr ''0x1'')])"
    by code_simp
  with url_only_request_is_fresh [OF a, of no_photos_env] a show ?thesis by simp
qed

subsection \<open>C8: no restaurant is fatal, zero images of a found restaurant is not\<close>

text \<open>
  Claim C8, as the code has it. Let the image-fetching stage return a result (the API key
  is configured and no request to the search API raises). If the stage resolved no
  restaurant, the pipeline ends with the not-found error "Restaurant not found on Google
  Maps"; if it resolved a restaurant and reports an error (the place has no data id, so
  there are no image URLs), the pipeline ends with the not-found error "No data_id found".
  If it resolved a restaurant and, without an error, returns zero image URLs, the pipeline
  answers with the "No text extracted from menu images" body and a null menu. In all
  these cases no OCR call and no backend call is made.
\<close>

theorem fetch_stage_outcomes:
  assumes key: "serpapi_key e \<noteq> []"
    and serp: "extract_menu_images e (req_restaurant_name req) (or_empty (req_location req)) 0
                 (req_google_maps_url req) = (Inr sr, evs)"
  shows "(sr_restaurant sr = None \<longrightarrow>
            fresh_extraction e req = (HTTP_404 (JStr ''Restaurant not found on Google Maps''), evs))
     \<and> (sr_restaurant sr \<noteq> None \<and> sr_error sr \<noteq> None \<longrightarrow>
            fresh_extraction e req = (HTTP_404 (JStr ''No data_id found''), evs))
     \<and> (sr_error sr = None \<and> sr_image_urls sr = Some [] \<longrightarrow>
            fresh_extraction e req = (Response (no_text_response (the (sr_restaurant sr))), evs))
     \<and> (sr_restaurant sr = None \<or> sr_image_urls sr = Some [] \<longrightarrow>
            (\<forall>ev \<in> set (snd (fresh_extraction e req)). \<not> is_ocr_or_backend ev))"
proof -
  have evs: "\<forall>ev \<in> set evs. \<not> is_ocr_or_backend ev"
    using extract_menu_images_events [of e "req_restaurant_name req" "or_empty (req_location req)" 0
        "req_google_maps_url req"] by (simp add: serp)
  from serp_result_shapes [OF serp]
  consider (nf) "sr = \<lparr>sr_error = Some ''Restaurant not found on Google Maps'', sr_restaurant = None,
               sr_image_urls = None\<rparr>"
    | (noid) r where "sr = \<lparr>sr_error = Some ''No data_id found'', sr_restaurant = Some r,
               sr_image_urls = Some []\<rparr>"
    | (ok) r us where "sr = \<lparr>sr_error = None, sr_restaurant = Some r, sr_image_urls = Some us\<rparr>"
    by blast
  then show ?thesis
  proof cases
    case nf
    then have "fresh_extraction e req = (HTTP_404 (JStr ''Restaurant not found on Google Maps''), evs)"
      using key by (simp add: fresh_extraction_def serp opt_json_def)
    then show ?thesis using evs nf by simp
  next
    case noid
    then have "fresh_extraction e req = (HTTP_404 (JStr ''No data_id found''), evs)"
      using key by (simp add: fresh_extraction_def serp opt_json_def)
    then show ?thesis using evs noid by simp
  next
    case ok
    show ?thesis
    proof (cases "us = []")
      case True
      then have "fresh_extraction e req = (Response (no_text_response r), evs)"
        using key ok by (simp add: fresh_extraction_def serp Let_def process_images_empty)
      then show ?thesis using evs ok True by simp
    next
      case False
      then show ?thesis using ok by simp
    qed
  qed
qed

theorem fetch_stage_outcomes_witness:
  "serpapi_key base_env \<noteq> []
   \<and> extract_menu_images base_env (req_restaurant_name url_request)
        (or_empty (req_location url_request)) 0 (req_google_maps_url url_request) =
       (Inr \<lparr>sr_error = Some ''Restaurant not found on Google Maps'', sr_restaurant = None,
              sr_image_urls = None\<rparr>,
        [SerpSearch ''https://maps.google.com/?cid=1''])
   \<and> fresh_extraction base_env url_request =
       (HTTP_404 (JStr ''Restaurant not found on Google Maps''),
        [SerpSearch ''https://maps.google.com/?cid=1''])
   \<and> serpapi_key no_photos_env \<noteq> []
   \<and> extract_menu_images no_photos_env (req_restaurant_name url_request)
        (or_empty (req_location url_request)) 0 (req_google_maps_url url_request) =
       (Inr \<lparr>sr_error = None, sr_restaurant = Some found_info, sr_image_urls = Some []\<rparr>,
        [SerpSearch ''https://maps.google.com/?cid=1'', SerpPhotos (JStr ''0x1'')])
   \<and> fresh_extraction no_photos_env url_request =
       (Response (no_text_response found_info),
        [SerpSearch ''https://maps.google.com/?cid=1'', SerpPhotos (JStr ''0x1'')])"
proof -
  have k1: "serpapi_key base_env \<noteq> []" by (simp add: base_env_def)
  have k2: "serpapi_key no_photos_env \<noteq> []" by (simp add: no_photos_env_def base_env_def)
  have s1: "extract_menu_images base_env (req_restaurant_name url_request)
        (or_empty (req_location url_request)) 0 (req_google_maps_url url_request) =
       (Inr \<lparr>sr_error = Some ''Restaurant not found on Google Maps'', sr_restaurant = None,
              sr_image_urls = None\<rparr>,
        [SerpSearch ''https://maps.google.com/?cid=1''])"
    by code_simp
  have s2: "extract_menu_images no_photos_env (req_restaurant_name url_request)
        (or_empty (req_location url_request)) 0 (req_google_maps_url url_request) =
       (Inr \<lparr>sr_error = None, sr_restaurant = Some found_info, sr_image_urls = Some []\<rparr>,
        [SerpSearch ''https://maps.google.com/?cid=1'', SerpPhotos (JStr ''0x1'')])"
    by code_simp
  from fetch_stage_outcomes [OF k1 s1] have f1: "fresh_extraction base_env url_request =
       (HTTP_404 (JStr ''Restaurant not found on Google Maps''),
        [SerpSearch ''https://maps.google.com/?cid=1''])"
    by simp
  from fetch_stage_outcomes [OF k2 s2] have f2: "fresh_extraction no_photos_env url_request =
       (Response (no_text_response found_info),
        [SerpSearch ''https://maps.google.com/?cid=1'', SerpPhotos (JStr ''0x1'')])"
    by simp
  from k1 k2 s1 s2 f1 f2 show ?thesis by blast
qed

text \<open>
  C8 as stated fails: for a restaurant that is found, has a data id and has no menu
  photos, the stage returns zero image URLs and the handler answers with the "No text
  extracted" body, not with a not-found error.
\<close>

theorem zero_images_is_not_fatal:
  "extract_menu_images no_photos_env (req_restaurant_name name_request)
        (or_empty (req_location name_request)) 0 (req_google_maps_url name_request) =
       (Inr \<lparr>sr_error = None, sr_restaurant = Some found_info, sr_image_urls = Some []\<rparr>,
        [SerpSearch ''tandoori koramangala'', SerpPhotos (JStr ''0x1'')])
   \<and> extract_menu no_photos_env name_request =
       (Response (no_text_response found_info),
        [CacheGet ''tandoori_koramangala'', MongoFind ''tandoori'' (Some ''koramangala''),
         SerpSearch ''tandoori koramangala'', SerpPhotos (JStr ''0x1'')])"
  by code_simp

end
